theory Spec2Isabelle
  imports Complex_Main "HOL-Library.AList"
begin

section \<open>The board: \<^verbatim>\<open>server/game_logic.py\<close>, class \<^verbatim>\<open>GomokuBoard\<close>\<close>

text \<open>
  A cell holds \<^verbatim>\<open>None\<close> or a colour string. The record field \<open>bsize\<close> is the
  attribute \<^verbatim>\<open>self.size\<close> and \<open>grid\<close> is \<^verbatim>\<open>self.board\<close> (a list of rows).
  Coordinates are Python integers.
\<close>

type_synonym cell = "string option"

record GomokuBoard =
  bsize :: int
  grid :: "cell list list"

datatype py_error = IndexError

definition empty_grid :: "int \<Rightarrow> cell list list" where
  "empty_grid n = replicate (nat n) (replicate (nat n) None)"

definition GomokuBoard_init :: "int \<Rightarrow> GomokuBoard" where
  "GomokuBoard_init n = \<lparr>bsize = n, grid = empty_grid n\<rparr>"

definition is_valid_position :: "GomokuBoard \<Rightarrow> int \<Rightarrow> int \<Rightarrow> bool" where
  "is_valid_position b x y \<longleftrightarrow> 0 \<le> x \<and> x < bsize b \<and> 0 \<le> y \<and> y < bsize b"

text \<open>\<^verbatim>\<open>self.board[x][y]\<close> at a position already known to be valid.\<close>

definition cell_at :: "GomokuBoard \<Rightarrow> int \<Rightarrow> int \<Rightarrow> cell" where
  "cell_at b x y = grid b ! nat x ! nat y"

text \<open>\<^verbatim>\<open>xs[i]\<close> in Python: an index in \<open>[-len, 0)\<close> is taken from the end, anything else outside the list raises.\<close>

definition py_index :: "'a list \<Rightarrow> int \<Rightarrow> py_error + 'a" where
  "py_index xs i =
     (if 0 \<le> i \<and> i < int (length xs) then Inr (xs ! nat i)
      else if i < 0 \<and> - int (length xs) \<le> i then Inr (xs ! nat (int (length xs) + i))
      else Inl IndexError)"

definition board_get :: "GomokuBoard \<Rightarrow> int \<Rightarrow> int \<Rightarrow> py_error + cell" where
  "board_get b x y =
     (case py_index (grid b) x of Inl e \<Rightarrow> Inl e | Inr row \<Rightarrow> py_index row y)"

definition is_empty :: "GomokuBoard \<Rightarrow> int \<Rightarrow> int \<Rightarrow> bool" where
  "is_empty b x y = (if \<not> is_valid_position b x y then False else cell_at b x y = None)"

datatype place_error = InvalidPosition | Occupied | BadColor

text \<open>
  \<^verbatim>\<open>place_stone\<close> raises \<^verbatim>\<open>ValueError\<close> with one of three messages, in this order of
  checks; the board is returned next to the result, unchanged when the call raises.
\<close>

definition place_stone :: "GomokuBoard \<Rightarrow> int \<Rightarrow> int \<Rightarrow> string \<Rightarrow> (place_error + bool) \<times> GomokuBoard" where
  "place_stone b x y color =
     (if \<not> is_valid_position b x y then (Inl InvalidPosition, b)
      else if \<not> is_empty b x y then (Inl Occupied, b)
      else if color \<notin> set [''black'', ''white''] then (Inl BadColor, b)
      else (Inr True, b\<lparr>grid := (grid b)[nat x := (grid b ! nat x)[nat y := Some color]]\<rparr>))"

text \<open>
  The inner \<^verbatim>\<open>while\<close> loop of \<^verbatim>\<open>check_winner\<close>: walk from \<open>(nx, ny)\<close> in steps of
  \<open>(dx, dy)\<close> while the position is valid and holds \<open>color\<close>, counting. For the step
  \<open>(0, 0)\<close> the loop would not end, so the result is an option.
\<close>

partial_function (option) walk :: "GomokuBoard \<Rightarrow> string \<Rightarrow> int \<Rightarrow> int \<Rightarrow> int \<Rightarrow> int \<Rightarrow> nat \<Rightarrow> nat option" where
  "walk b color nx ny dx dy count =
     (if is_valid_position b nx ny \<and> cell_at b nx ny = Some color
      then walk b color (nx + dx) (ny + dy) dx dy (count + 1)
      else Some count)"

declare walk.simps [code]

text \<open>The \<^verbatim>\<open>for dx, dy in direction_pair\<close> loop, threading \<open>count\<close>.\<close>

fun walk_pair :: "GomokuBoard \<Rightarrow> string \<Rightarrow> int \<Rightarrow> int \<Rightarrow> (int \<times> int) list \<Rightarrow> nat \<Rightarrow> nat option" where
  "walk_pair b color x y [] count = Some count"
| "walk_pair b color x y ((dx, dy) # ds) count =
     (case walk b color (x + dx) (y + dy) dx dy count of
        None \<Rightarrow> None
      | Some count' \<Rightarrow> walk_pair b color x y ds count')"

definition directions :: "(int \<times> int) list list" where
  "directions = [[(0, 1), (0, -1)], [(1, 0), (-1, 0)], [(1, 1), (-1, -1)], [(1, -1), (-1, 1)]]"

text \<open>The \<^verbatim>\<open>for direction_pair in directions\<close> loop with its early return.\<close>

fun check_directions :: "GomokuBoard \<Rightarrow> string \<Rightarrow> int \<Rightarrow> int \<Rightarrow> (int \<times> int) list list \<Rightarrow> string option option" where
  "check_directions b color x y [] = Some None"
| "check_directions b color x y (p # ps) =
     (case walk_pair b color x y p 1 of
        None \<Rightarrow> None
      | Some count \<Rightarrow> if count \<ge> 5 then Some (Some color) else check_directions b color x y ps)"

text \<open>
  \<^verbatim>\<open>check_winner\<close>: the outer option is \<open>None\<close> when a walk does not return, the sum
  carries the \<^verbatim>\<open>IndexError\<close> of the unguarded first read \<^verbatim>\<open>self.board[x][y]\<close>.
\<close>

definition check_winner :: "GomokuBoard \<Rightarrow> int \<Rightarrow> int \<Rightarrow> (py_error + string option) option" where
  "check_winner b x y =
     (case board_get b x y of
        Inl e \<Rightarrow> Some (Inl e)
      | Inr None \<Rightarrow> Some (Inr None)
      | Inr (Some color) \<Rightarrow>
          (case check_directions b color x y directions of
             None \<Rightarrow> None
           | Some w \<Rightarrow> Some (Inr w)))"

definition get_board_state :: "GomokuBoard \<Rightarrow> cell list list" where
  "get_board_state b = map (\<lambda>row. row) (grid b)"

definition reset :: "GomokuBoard \<Rightarrow> GomokuBoard" where
  "reset b = b\<lparr>grid := empty_grid (bsize b)\<rparr>"

text \<open>\<^verbatim>\<open>count_stones\<close>: the number of cells equal to a colour.\<close>

definition count_color :: "GomokuBoard \<Rightarrow> string \<Rightarrow> nat" where
  "count_color b c = length (filter (\<lambda>cl. cl = Some c) (concat (grid b)))"

text \<open>A board as the constructor and \<^verbatim>\<open>reset\<close> build it: \<open>bsize\<close> rows of \<open>bsize\<close> cells.\<close>

definition wf_board :: "GomokuBoard \<Rightarrow> bool" where
  "wf_board b \<longleftrightarrow> 0 \<le> bsize b \<and> length (grid b) = nat (bsize b) \<and>
     (\<forall>row \<in> set (grid b). length row = nat (bsize b))"

subsection \<open>What the specification calls a winning run\<close>

text \<open>
  These definitions follow the words of the specification, not the code: a stone of colour
  \<open>c\<close> lies at a valid position; a run of \<open>n\<close> stones of colour \<open>c\<close> along the axis
  \<open>d\<close> passes through \<open>(x, y)\<close> when \<open>(x, y)\<close> is the \<open>k\<close>-th stone of \<open>n\<close> consecutive
  ones; the four axes are horizontal, vertical and the two diagonals.
\<close>

definition stone_at :: "GomokuBoard \<Rightarrow> string \<Rightarrow> int \<Rightarrow> int \<Rightarrow> bool" where
  "stone_at b c i j \<longleftrightarrow> is_valid_position b i j \<and> cell_at b i j = Some c"

definition spec_run_through :: "GomokuBoard \<Rightarrow> string \<Rightarrow> int \<Rightarrow> int \<Rightarrow> nat \<Rightarrow> int \<times> int \<Rightarrow> bool" where
  "spec_run_through b c x y n d \<longleftrightarrow>
     (\<exists>k \<in> {0..<n}. \<forall>i \<in> {0..<n}.
        stone_at b c (x + (int i - int k) * fst d) (y + (int i - int k) * snd d))"

definition spec_axes :: "(int \<times> int) list" where
  "spec_axes = [(0, 1), (1, 0), (1, 1), (1, -1)]"

definition spec_winning_run :: "GomokuBoard \<Rightarrow> string \<Rightarrow> int \<Rightarrow> int \<Rightarrow> bool" where
  "spec_winning_run b c x y \<longleftrightarrow> (\<exists>d \<in> set spec_axes. spec_run_through b c x y 5 d)"

text \<open>
  Used in the proofs only: \<open>n\<close> is the length of the run that starts next to \<open>(x, y)\<close> in
  the direction \<open>(dx, dy)\<close>, that is, what one walk of the loop adds to the count.
\<close>

definition arm :: "GomokuBoard \<Rightarrow> string \<Rightarrow> int \<Rightarrow> int \<Rightarrow> int \<Rightarrow> int \<Rightarrow> nat \<Rightarrow> bool" where
  "arm b c x y dx dy n \<longleftrightarrow>
     (\<forall>j. 1 \<le> j \<and> j \<le> int n \<longrightarrow> stone_at b c (x + j * dx) (y + j * dy)) \<and>
     \<not> stone_at b c (x + (int n + 1) * dx) (y + (int n + 1) * dy)"

text \<open>
  A concrete position: after black has played the fifth stone of row 7 and white four stones
  of row 8 (scenario S1 of the specification, with one more white stone).
\<close>

definition place_all :: "GomokuBoard \<Rightarrow> (int \<times> int \<times> string) list \<Rightarrow> GomokuBoard" where
  "place_all b ms = foldl (\<lambda>b (x, y, c). snd (place_stone b x y c)) b ms"

definition board_five :: GomokuBoard where
  "board_five = place_all (GomokuBoard_init 15)
     [(7, 3, ''black''), (7, 4, ''black''), (7, 5, ''black''), (7, 6, ''black''), (7, 7, ''black''),
      (8, 3, ''white''), (8, 4, ''white''), (8, 5, ''white''), (8, 6, ''white'')]"

section \<open>The room: \<^verbatim>\<open>server/room_manager.py\<close>, class \<^verbatim>\<open>GameRoom\<close>\<close>

text \<open>
  A connection handle is an opaque number; a seat whose connection was lost holds \<^verbatim>\<open>None\<close>.
  Each player is the dictionary \<^verbatim>\<open>{socket, name, color, ready}\<close>. The room status is one of
  the three strings \<^verbatim>\<open>"waiting"\<close>, \<^verbatim>\<open>"playing"\<close>, \<^verbatim>\<open>"finished"\<close>. Dictionaries keyed by player
  name are association lists in insertion order. \<^verbatim>\<open>time.time()\<close> is passed in as \<open>now\<close>.
  Spectators, the lock and the sending of messages do not touch the fields below and are left
  out; of the timer thread only \<^verbatim>\<open>turn_start_time\<close> and the stored callback are kept.
\<close>

type_synonym sock = nat

record player =
  socket :: "sock option"
  name :: string
  color :: string
  ready :: bool

datatype status = Waiting | Playing | Finished

record disconnection =
  disconnect_time :: real
  player_data :: player
  last_color :: string
  reconnect_count :: nat

record GameRoom =
  players :: "player list"
  status :: status
  board :: GomokuBoard
  current_turn :: string
  turn_start_time :: "real option"
  timer_callback :: bool
  is_paused :: bool
  disconnected_players :: "(string \<times> disconnection) list"
  reconnect_attempts :: "(string \<times> nat) list"
  rematch_requests :: "(string \<times> bool) list"

definition turn_time_limit :: real where "turn_time_limit = 60"
definition reconnect_timeout :: real where "reconnect_timeout = 180"
definition max_reconnect_attempts :: nat where "max_reconnect_attempts = 2"

definition GameRoom_init :: GameRoom where
  "GameRoom_init = \<lparr>players = [], status = Waiting, board = GomokuBoard_init 15,
     current_turn = ''black'', turn_start_time = None, timer_callback = False,
     is_paused = False, disconnected_players = [], reconnect_attempts = [],
     rematch_requests = []\<rparr>"

text \<open>\<^verbatim>\<open>d.get(k, default)\<close> on an association list.\<close>

definition dict_get :: "(string \<times> 'v) list \<Rightarrow> string \<Rightarrow> 'v \<Rightarrow> 'v" where
  "dict_get d k dflt = (case map_of d k of None \<Rightarrow> dflt | Some v \<Rightarrow> v)"

text \<open>Mutating the first element of a list that satisfies a test (a \<^verbatim>\<open>for\<close> loop that ends at the first hit).\<close>

fun update_first :: "('a \<Rightarrow> bool) \<Rightarrow> ('a \<Rightarrow> 'a) \<Rightarrow> 'a list \<Rightarrow> 'a list" where
  "update_first P f [] = []"
| "update_first P f (x # xs) = (if P x then f x # xs else x # update_first P f xs)"

datatype room_error = RoomFull

definition add_player :: "GameRoom \<Rightarrow> sock \<Rightarrow> string \<Rightarrow> (room_error + string) \<times> GameRoom" where
  "add_player r client_socket player_name =
     (if length (players r) \<ge> 2 then (Inl RoomFull, r)
      else let c = (if length (players r) = 0 then ''black'' else ''white'');
               p = \<lparr>socket = Some client_socket, name = player_name, color = c, ready = False\<rparr>
           in (Inr c, r\<lparr>players := players r @ [p]\<rparr>))"

definition stop_timer :: "GameRoom \<Rightarrow> GameRoom" where
  "stop_timer r = r\<lparr>turn_start_time := None\<rparr>"

definition start_timer :: "GameRoom \<Rightarrow> real \<Rightarrow> GameRoom" where
  "start_timer r now =
     (if is_paused r then r else r\<lparr>turn_start_time := Some now, timer_callback := True\<rparr>)"

definition get_remaining_time :: "GameRoom \<Rightarrow> real \<Rightarrow> int" where
  "get_remaining_time r now =
     (case turn_start_time r of
        None \<Rightarrow> 0
      | Some t \<Rightarrow> \<lfloor>max 0 (turn_time_limit - (now - t))\<rfloor>)"

text \<open>The test of \<^verbatim>\<open>_timer_worker\<close> that leads to the \<^verbatim>\<open>"timeout"\<close> callback.\<close>

definition timer_expired :: "GameRoom \<Rightarrow> real \<Rightarrow> bool" where
  "timer_expired r now =
     (case turn_start_time r of
        None \<Rightarrow> False
      | Some t \<Rightarrow> turn_time_limit - (now - t) \<le> 0)"

definition get_player_by_socket :: "GameRoom \<Rightarrow> sock \<Rightarrow> player option" where
  "get_player_by_socket r client_socket = find (\<lambda>p. socket p = Some client_socket) (players r)"

definition remove_player :: "GameRoom \<Rightarrow> real \<Rightarrow> sock \<Rightarrow> bool \<Rightarrow> string option \<times> GameRoom" where
  "remove_player r now client_socket is_disconnect =
     (case find (\<lambda>p. socket p = Some client_socket) (players r) of
        None \<Rightarrow> (None, r)
      | Some p \<Rightarrow>
          if is_disconnect \<and> status r = Playing then
            let current_attempts = dict_get (reconnect_attempts r) (name p) 0;
                r1 = (if current_attempts < max_reconnect_attempts
                      then r\<lparr>disconnected_players :=
                             AList.update (name p)
                               \<lparr>disconnect_time = now, player_data = p, last_color = color p,
                                reconnect_count = current_attempts\<rparr>
                               (disconnected_players r)\<rparr>
                      else r);
                r2 = r1\<lparr>players := update_first (\<lambda>q. socket q = Some client_socket)
                                       (\<lambda>q. q\<lparr>socket := None\<rparr>) (players r1),
                        is_paused := True\<rparr>
            in (Some (name p), stop_timer r2)
          else
            let r1 = r\<lparr>players := remove1 p (players r)\<rparr>
            in if length (players r1) = 1 then
                 (Some (name p),
                  (stop_timer (r1\<lparr>status := Waiting, board := reset (board r1),
                                  current_turn := ''black''\<rparr>))
                    \<lparr>players := map (\<lambda>q. q\<lparr>ready := False\<rparr>) (players r1),
                     rematch_requests := []\<rparr>)
               else if length (players r1) = 0 then (Some (name p), r1\<lparr>status := Waiting\<rparr>)
               else (Some (name p), r1))"

definition is_full :: "GameRoom \<Rightarrow> bool" where
  "is_full r \<longleftrightarrow> length (players r) \<ge> 2"

definition switch_turn :: "GameRoom \<Rightarrow> GameRoom" where
  "switch_turn r = r\<lparr>current_turn := (if current_turn r = ''black'' then ''white'' else ''black'')\<rparr>"

definition set_player_ready :: "GameRoom \<Rightarrow> sock \<Rightarrow> bool \<Rightarrow> bool \<times> GameRoom" where
  "set_player_ready r client_socket ready_state =
     (case find (\<lambda>p. socket p = Some client_socket) (players r) of
        None \<Rightarrow> (False, r)
      | Some p \<Rightarrow>
          (True, r\<lparr>players := update_first (\<lambda>q. socket q = Some client_socket)
                                (\<lambda>q. q\<lparr>ready := ready_state\<rparr>) (players r)\<rparr>))"

definition are_all_players_ready :: "GameRoom \<Rightarrow> bool" where
  "are_all_players_ready r = (if length (players r) < 2 then False else list_all ready (players r))"

definition can_reconnect :: "GameRoom \<Rightarrow> real \<Rightarrow> string \<Rightarrow> bool" where
  "can_reconnect r now player_name =
     (case map_of (disconnected_players r) player_name of
        None \<Rightarrow> False
      | Some d \<Rightarrow>
          if dict_get (reconnect_attempts r) player_name 0 \<ge> max_reconnect_attempts then False
          else now - disconnect_time d \<le> reconnect_timeout)"

definition reconnect_player :: "GameRoom \<Rightarrow> real \<Rightarrow> string \<Rightarrow> sock \<Rightarrow> bool \<times> GameRoom" where
  "reconnect_player r now player_name new_socket =
     (if map_of (disconnected_players r) player_name = None then (False, r)
      else if \<not> can_reconnect r now player_name then (False, r)
      else
        let current_attempts = dict_get (reconnect_attempts r) player_name 0;
            r1 = r\<lparr>reconnect_attempts :=
                     AList.update player_name (current_attempts + 1) (reconnect_attempts r),
                   players := update_first (\<lambda>q. name q = player_name)
                                (\<lambda>q. q\<lparr>socket := Some new_socket\<rparr>) (players r),
                   disconnected_players := AList.delete player_name (disconnected_players r)\<rparr>;
            r2 = (if disconnected_players r1 = [] then
                    let r3 = r1\<lparr>is_paused := False\<rparr>
                    in if status r3 = Playing \<and> timer_callback r3 then start_timer r3 now else r3
                  else r1)
        in (True, r2))"

definition check_reconnect_timeout :: "GameRoom \<Rightarrow> real \<Rightarrow> (string \<times> string) list" where
  "check_reconnect_timeout r current_time =
     map (\<lambda>(n, d). (n, last_color d))
       (filter (\<lambda>(n, d). current_time - disconnect_time d > reconnect_timeout)
          (disconnected_players r))"

definition forfeit_player :: "GameRoom \<Rightarrow> string \<Rightarrow> string \<Rightarrow> (string \<times> string option) \<times> GameRoom" where
  "forfeit_player r player_name player_color =
     (let r1 = r\<lparr>disconnected_players := AList.delete player_name (disconnected_players r)\<rparr>;
          winner_color = (if player_color = ''black'' then ''white'' else ''black'');
          winner_name = map_option name (find (\<lambda>p. color p = winner_color) (players r1))
      in ((winner_color, winner_name), (stop_timer r1)\<lparr>status := Finished, is_paused := False\<rparr>))"

definition request_rematch :: "GameRoom \<Rightarrow> string \<Rightarrow> bool \<times> GameRoom" where
  "request_rematch r player_name =
     (if status r \<noteq> Finished then (False, r)
      else (True, r\<lparr>rematch_requests := AList.update player_name True (rematch_requests r)\<rparr>))"

definition is_rematch_agreed :: "GameRoom \<Rightarrow> bool" where
  "is_rematch_agreed r =
     (if length (players r) \<noteq> 2 then False
      else list_all (\<lambda>p. dict_get (rematch_requests r) (name p) False) (players r))"

definition swap_color :: "string \<Rightarrow> string" where
  "swap_color c = (if c = ''black'' then ''white'' else if c = ''white'' then ''black'' else c)"

definition start_rematch :: "GameRoom \<Rightarrow> GameRoom" where
  "start_rematch r =
     r\<lparr>board := reset (board r), current_turn := ''black'', status := Playing,
       rematch_requests := [],
       players := map (\<lambda>p. p\<lparr>color := swap_color (color p), ready := True\<rparr>) (players r)\<rparr>"

section \<open>The dispatcher: \<^verbatim>\<open>examples/gomoku_server.py\<close>, class \<^verbatim>\<open>GomokuServer\<close>\<close>

text \<open>
  Each handler is modelled by its effect on the room the connection is in; the replies and
  broadcasts it sends are left out. A handler that answers with an error leaves the room as
  it is.
\<close>

definition handle_ready :: "GameRoom \<Rightarrow> real \<Rightarrow> sock \<Rightarrow> GameRoom" where
  "handle_ready r now client_socket =
     (case get_player_by_socket r client_socket of
        None \<Rightarrow> r
      | Some p \<Rightarrow>
          let new_ready = \<not> ready p;
              r1 = snd (set_player_ready r client_socket new_ready)
          in if are_all_players_ready r1 then start_timer (r1\<lparr>status := Playing\<rparr>) now else r1)"

text \<open>
  \<^verbatim>\<open>handle_place_stone\<close>. The test \<^verbatim>\<open>if winner:\<close> holds for a non-empty string. Should
  \<^verbatim>\<open>check_winner\<close> not return a value, the handler ends after the stone is on the board.
\<close>

definition handle_place_stone :: "GameRoom \<Rightarrow> real \<Rightarrow> sock \<Rightarrow> int \<Rightarrow> int \<Rightarrow> GameRoom" where
  "handle_place_stone r now client_socket x y =
     (case get_player_by_socket r client_socket of
        None \<Rightarrow> r
      | Some p \<Rightarrow>
          if status r \<noteq> Playing then r
          else if color p \<noteq> current_turn r then r
          else
            (case place_stone (board r) x y (color p) of
               (Inl e, b') \<Rightarrow> r
             | (Inr ok, b') \<Rightarrow>
                 let r1 = r\<lparr>board := b'\<rparr>
                 in (case check_winner (board r1) x y of
                       Some (Inr (Some winner)) \<Rightarrow>
                         if winner \<noteq> [] then (stop_timer r1)\<lparr>status := Finished\<rparr>
                         else start_timer (switch_turn (stop_timer r1)) now
                     | Some (Inr None) \<Rightarrow> start_timer (switch_turn (stop_timer r1)) now
                     | Some (Inl e) \<Rightarrow> r1
                     | None \<Rightarrow> r1)))"

datatype timer_event = Update | Timeout

definition handle_timer_event :: "GameRoom \<Rightarrow> real \<Rightarrow> timer_event \<Rightarrow> GameRoom" where
  "handle_timer_event r now event_type =
     (case event_type of
        Update \<Rightarrow> r
      | Timeout \<Rightarrow> if status r \<noteq> Playing then r else start_timer (switch_turn r) now)"

text \<open>\<^verbatim>\<open>remove_from_room\<close> for a connection whose role is player.\<close>

definition remove_from_room :: "GameRoom \<Rightarrow> real \<Rightarrow> sock \<Rightarrow> bool \<Rightarrow> GameRoom" where
  "remove_from_room r now client_socket is_disconnect =
     snd (remove_player r now client_socket is_disconnect)"

definition handle_reconnect :: "GameRoom \<Rightarrow> real \<Rightarrow> sock \<Rightarrow> string \<Rightarrow> GameRoom" where
  "handle_reconnect r now client_socket player_name =
     (if player_name = [] then r
      else if can_reconnect r now player_name
           then snd (reconnect_player r now player_name client_socket)
           else r)"

text \<open>
  \<^verbatim>\<open>handle_join_room\<close> for this room: a connection already seated is first removed by a
  clean leave, a name that can reconnect is reconnected, otherwise the player is added unless
  the room is full. \<^verbatim>\<open>handle_create_room\<close> is the same on a fresh room.
\<close>

definition handle_join_room :: "GameRoom \<Rightarrow> real \<Rightarrow> sock \<Rightarrow> string \<Rightarrow> GameRoom" where
  "handle_join_room r now client_socket player_name =
     (let r0 = (if get_player_by_socket r client_socket \<noteq> None
                then remove_from_room r now client_socket False else r)
      in if can_reconnect r0 now player_name then handle_reconnect r0 now client_socket player_name
         else if is_full r0 then r0
         else snd (add_player r0 client_socket player_name))"

definition handle_surrender :: "GameRoom \<Rightarrow> sock \<Rightarrow> GameRoom" where
  "handle_surrender r client_socket =
     (if status r \<noteq> Playing then r
      else case get_player_by_socket r client_socket of
             None \<Rightarrow> r
           | Some p \<Rightarrow> (stop_timer r)\<lparr>status := Finished\<rparr>)"

definition handle_rematch :: "GameRoom \<Rightarrow> real \<Rightarrow> sock \<Rightarrow> GameRoom" where
  "handle_rematch r now client_socket =
     (if status r \<noteq> Finished then r
      else case get_player_by_socket r client_socket of
             None \<Rightarrow> r
           | Some p \<Rightarrow>
               (case request_rematch r (name p) of
                  (False, r1) \<Rightarrow> r1
                | (True, r1) \<Rightarrow>
                    if is_rematch_agreed r1 then start_timer (start_rematch r1) now else r1))"

definition handle_rematch_response :: "GameRoom \<Rightarrow> real \<Rightarrow> sock \<Rightarrow> bool \<Rightarrow> GameRoom" where
  "handle_rematch_response r now client_socket accepted =
     (case get_player_by_socket r client_socket of
        None \<Rightarrow> r
      | Some p \<Rightarrow>
          if accepted then
            let r1 = snd (request_rematch r (name p))
            in if is_rematch_agreed r1 then start_timer (start_rematch r1) now else r1
          else r\<lparr>rematch_requests := []\<rparr>)"

text \<open>One pass of \<^verbatim>\<open>monitor_reconnection_timeouts\<close> over the room.\<close>

definition monitor_sweep :: "GameRoom \<Rightarrow> real \<Rightarrow> GameRoom" where
  "monitor_sweep r now =
     foldl (\<lambda>r' (n, c). snd (forfeit_player r' n c)) r (check_reconnect_timeout r now)"

subsection \<open>Sequences of events on one room\<close>

text \<open>
  What can happen to a room, each event with the clock value at which it is handled. The
  timer event is the timeout callback, delivered when the timer worker finds the turn time
  used up.
\<close>

datatype event =
    JoinRoom sock string
  | Ready sock
  | PlaceStone sock int int
  | LeaveRoom sock
  | ConnectionLost sock
  | TimeUp
  | Reconnect sock string
  | Surrender sock
  | Rematch sock
  | RematchResponse sock bool
  | MonitorSweep

fun step :: "GameRoom \<Rightarrow> real \<times> event \<Rightarrow> GameRoom" where
  "step r (now, JoinRoom s n) = handle_join_room r now s n"
| "step r (now, Ready s) = handle_ready r now s"
| "step r (now, PlaceStone s x y) = handle_place_stone r now s x y"
| "step r (now, LeaveRoom s) = remove_from_room r now s False"
| "step r (now, ConnectionLost s) = remove_from_room r now s True"
| "step r (now, TimeUp) = (if timer_expired r now then handle_timer_event r now Timeout else r)"
| "step r (now, Reconnect s n) = handle_reconnect r now s n"
| "step r (now, Surrender s) = handle_surrender r s"
| "step r (now, Rematch s) = handle_rematch r now s"
| "step r (now, RematchResponse s a) = handle_rematch_response r now s a"
| "step r (now, MonitorSweep) = monitor_sweep r now"

definition run :: "GameRoom \<Rightarrow> (real \<times> event) list \<Rightarrow> GameRoom" where
  "run r evs = foldl step r evs"

section \<open>The wire protocol: \<^verbatim>\<open>common/protocol.py\<close>, class \<^verbatim>\<open>Protocol\<close>\<close>

text \<open>
  The Python values that \<^verbatim>\<open>json.dumps\<close> accepts with its default settings: \<^verbatim>\<open>None\<close>,
  booleans, integers, floats (finite ones, the two infinities and NaN), strings, lists, tuples
  and dictionaries whose keys are strings, integers, booleans, \<^verbatim>\<open>None\<close> or floats. A
  dictionary is the list of its items in insertion order; in Python no two keys of a
  dictionary are equal.
\<close>

datatype pykey = KStr string | KInt int | KBool bool | KNone | KFloat real | KInf bool | KNaN

datatype pyval = PNone | PBool bool | PInt int | PFloat real | PInf bool | PNaN | PStr string
  | PList "pyval list" | PTuple "pyval list" | PDict "(pykey \<times> pyval) list"

text \<open>Decimal digits of an integer, as \<^verbatim>\<open>int.__repr__\<close> writes them.\<close>

function show_nat :: "nat \<Rightarrow> string" where
  "show_nat n = (if n < 10 then [char_of (48 + n)]
                 else show_nat (n div 10) @ [char_of (48 + n mod 10)])"
  by pat_completeness auto
termination
  by (relation "measure (\<lambda>n. n)") auto

definition show_int :: "int \<Rightarrow> string" where
  "show_int i = (if i < 0 then CHR ''-'' # show_nat (nat (- i)) else show_nat (nat i))"

text \<open>
  \<^verbatim>\<open>json.dumps\<close> and \<^verbatim>\<open>json.loads\<close> belong to Python's standard library, not to this
  program; they are parameters \<open>dumps\<close> and \<open>loads\<close> of the two functions below (\<open>loads\<close>
  gives \<open>None\<close> where \<^verbatim>\<open>json.loads\<close> raises \<^verbatim>\<open>JSONDecodeError\<close>), and so is \<open>float_repr\<close>,
  the text \<^verbatim>\<open>float.__repr__\<close> gives for a finite float. What the library documents about the
  two together is written down here: JSON has string keys only and no tuples, so a value
  comes back from \<^verbatim>\<open>json.loads(json.dumps(v))\<close> with every dictionary key replaced by the
  string \<^verbatim>\<open>json.dumps\<close> writes for it and every tuple replaced by a list; where two keys are
  written as the same string, the later item gives the value.
\<close>

fun key_text :: "(real \<Rightarrow> string) \<Rightarrow> pykey \<Rightarrow> string" where
  "key_text float_repr (KStr s) = s"
| "key_text float_repr (KInt i) = show_int i"
| "key_text float_repr (KBool b) = (if b then ''true'' else ''false'')"
| "key_text float_repr KNone = ''null''"
| "key_text float_repr (KFloat x) = float_repr x"
| "key_text float_repr (KInf positive) = (if positive then ''Infinity'' else ''-Infinity'')"
| "key_text float_repr KNaN = ''NaN''"

definition dict_of_items :: "(pykey \<times> pyval) list \<Rightarrow> (pykey \<times> pyval) list" where
  "dict_of_items items = foldl (\<lambda>d kv. AList.update (fst kv) (snd kv) d) [] items"

primrec json_image :: "(real \<Rightarrow> string) \<Rightarrow> pyval \<Rightarrow> pyval" where
  "json_image float_repr PNone = PNone"
| "json_image float_repr (PBool b) = PBool b"
| "json_image float_repr (PInt i) = PInt i"
| "json_image float_repr (PFloat x) = PFloat x"
| "json_image float_repr (PInf positive) = PInf positive"
| "json_image float_repr PNaN = PNaN"
| "json_image float_repr (PStr s) = PStr s"
| "json_image float_repr (PList xs) = PList (map (json_image float_repr) xs)"
| "json_image float_repr (PTuple xs) = PList (map (json_image float_repr) xs)"
| "json_image float_repr (PDict items) =
     PDict (dict_of_items
       (map (map_prod (\<lambda>k. KStr (key_text float_repr k)) (json_image float_repr)) items))"

text \<open>
  The values that JSON holds as they are: string keys only, no two of them equal, no tuple,
  and no NaN (which Python does not count as equal to itself).
\<close>

fun is_str_key :: "pykey \<Rightarrow> bool" where
  "is_str_key (KStr s) = True"
| "is_str_key k = False"

primrec json_native :: "pyval \<Rightarrow> bool" where
  "json_native PNone = True"
| "json_native (PBool b) = True"
| "json_native (PInt i) = True"
| "json_native (PFloat x) = True"
| "json_native (PInf positive) = True"
| "json_native PNaN = False"
| "json_native (PStr s) = True"
| "json_native (PList xs) = list_all (\<lambda>b. b) (map json_native xs)"
| "json_native (PTuple xs) = False"
| "json_native (PDict items) =
     (list_all (\<lambda>kb. is_str_key (fst kb) \<and> snd kb) (map (map_prod (\<lambda>k. k) json_native) items) \<and>
      distinct (map fst items))"

text \<open>The message dictionary of \<^verbatim>\<open>create_message\<close>; \<^verbatim>\<open>data if data else {}\<close> for an optional dictionary.\<close>

definition data_or_empty :: "(pykey \<times> pyval) list option \<Rightarrow> (pykey \<times> pyval) list" where
  "data_or_empty data = (case data of None \<Rightarrow> [] | Some d \<Rightarrow> if d \<noteq> [] then d else [])"

definition message :: "string \<Rightarrow> string \<Rightarrow> (pykey \<times> pyval) list option \<Rightarrow> pyval" where
  "message timestamp msg_type data =
     PDict [(KStr ''type'', PStr msg_type),
            (KStr ''data'', PDict (data_or_empty data)),
            (KStr ''timestamp'', PStr timestamp)]"

definition newline :: char where
  "newline = CHR 0x0A"

definition create_message :: "(pyval \<Rightarrow> string) \<Rightarrow> string \<Rightarrow> string \<Rightarrow> (pykey \<times> pyval) list option \<Rightarrow> string" where
  "create_message dumps timestamp msg_type data = dumps (message timestamp msg_type data) @ [newline]"

text \<open>
  The text that \<^verbatim>\<open>json.dumps\<close> produces is ASCII, so encoding to and decoding from UTF-8
  do not change it and are left out. \<^verbatim>\<open>str.strip()\<close> removes the whitespace at both ends;
  on ASCII text the whitespace characters are the codes 9 to 13 and 28 to 32.
\<close>

definition is_space :: "char \<Rightarrow> bool" where
  "is_space c \<longleftrightarrow> of_char c \<in> {9, 10, 11, 12, 13, 28, 29, 30, 31, 32 :: nat}"

definition strip :: "string \<Rightarrow> string" where
  "strip s = rev (dropWhile is_space (rev (dropWhile is_space s)))"

text \<open>\<^verbatim>\<open>text.split('\n')\<close>: the pieces between the newlines, empty pieces included.\<close>

fun split_lines :: "string \<Rightarrow> string list" where
  "split_lines [] = [[]]"
| "split_lines (c # cs) =
     (if c = newline then [] # split_lines cs
      else (case split_lines cs of [] \<Rightarrow> [[c]] | l # ls \<Rightarrow> (c # l) # ls))"

text \<open>\<^verbatim>\<open>parse_messages\<close>: blank lines are skipped, and so are lines that \<open>loads\<close> rejects.\<close>

definition parse_messages :: "(string \<Rightarrow> pyval option) \<Rightarrow> string \<Rightarrow> pyval list" where
  "parse_messages loads raw_data =
     List.map_filter (\<lambda>line. if strip line \<noteq> [] then loads line else None)
       (split_lines (strip raw_data))"

text \<open>\<^verbatim>\<open>message["type"]\<close> and \<^verbatim>\<open>message.get("data", {})\<close> of a parsed message.\<close>

definition field :: "pyval \<Rightarrow> string \<Rightarrow> pyval option" where
  "field m k = (case m of PDict items \<Rightarrow> map_of items (KStr k) | _ \<Rightarrow> None)"

text \<open>
  What is used of the standard library, for one value \<open>v\<close>: \<open>loads\<close> reads what \<open>dumps\<close>
  wrote as the JSON image of \<open>v\<close>, and the text has no newline in it and neither starts nor
  ends with whitespace (for a dictionary it starts with an opening and ends with a closing
  brace, and control characters inside strings are written as escapes).
\<close>

definition json_contract ::
  "(pyval \<Rightarrow> string) \<Rightarrow> (string \<Rightarrow> pyval option) \<Rightarrow> (real \<Rightarrow> string) \<Rightarrow> pyval \<Rightarrow> bool" where
  "json_contract dumps loads float_repr v \<longleftrightarrow>
     loads (dumps v) = Some (json_image float_repr v) \<and> newline \<notin> set (dumps v) \<and>
     dumps v \<noteq> [] \<and> \<not> is_space (hd (dumps v)) \<and> \<not> is_space (last (dumps v))"

text \<open>The lines of several messages, joined by newlines.\<close>

fun joined :: "string list \<Rightarrow> string" where
  "joined [] = []"
| "joined [l] = l"
| "joined (l # ls) = l @ newline # joined ls"

text \<open>
  Three messages, the text Python's \<^verbatim>\<open>json.dumps\<close> gives for each and the value
  \<^verbatim>\<open>json.loads\<close> reads from that text; \<open>table_dumps\<close> and \<open>table_loads\<close> are the two
  library functions cut down to these values. The third message has a dictionary with an
  integer key as its data.
\<close>

definition ready_message :: pyval where
  "ready_message = message ''2026-01-01T12:00:00'' ''READY'' None"

definition place_message :: pyval where
  "place_message = message ''2026-01-01T12:00:05'' ''PLACE_STONE''
     (Some [(KStr ''x'', PInt 7), (KStr ''y'', PInt 8)])"

definition int_key_message :: pyval where
  "int_key_message = message ''2026-01-01T12:00:09'' ''CHAT_MESSAGE'' (Some [(KInt 1, PStr ''a'')])"

definition int_key_message_read :: pyval where
  "int_key_message_read =
     PDict [(KStr ''type'', PStr ''CHAT_MESSAGE''),
            (KStr ''data'', PDict [(KStr ''1'', PStr ''a'')]),
            (KStr ''timestamp'', PStr ''2026-01-01T12:00:09'')]"

definition ready_text :: string where
  \<open>ready_text = ''{"type": "READY", "data": {}, "timestamp": "2026-01-01T12:00:00"}''\<close>

definition place_text :: string where
  \<open>place_text = ''{"type": "PLACE_STONE", "data": {"x": 7, "y": 8}, "timestamp": "2026-01-01T12:00:05"}''\<close>

definition int_key_text :: string where
  \<open>int_key_text = ''{"type": "CHAT_MESSAGE", "data": {"1": "a"}, "timestamp": "2026-01-01T12:00:09"}''\<close>

definition table_dumps :: "pyval \<Rightarrow> string" where
  "table_dumps v =
     (if v = ready_message then ready_text
      else if v = place_message then place_text
      else if v = int_key_message then int_key_text
      else ''null'')"

definition table_loads :: "string \<Rightarrow> pyval option" where
  "table_loads s =
     (if s = ready_text then Some ready_message
      else if s = place_text then Some place_message
      else if s = int_key_text then Some int_key_message_read
      else None)"

text \<open>\<^verbatim>\<open>float.__repr__\<close> is not needed for these messages; any text will do.\<close>

definition no_float_repr :: "real \<Rightarrow> string" where
  "no_float_repr x = ''0.0''"

section \<open>Concrete sessions\<close>

text \<open>
  Two players join and ready up, black plays one stone, white surrenders and black asks for a
  rematch.
\<close>

definition room_rematch_pending :: GameRoom where
  "room_rematch_pending = run GameRoom_init
     [(0, JoinRoom 1 ''alice''), (1, JoinRoom 2 ''bob''), (2, Ready 1), (3, Ready 2),
      (10, PlaceStone 1 7 7), (20, Surrender 2), (30, Rematch 1)]"

text \<open>The first player leaves a waiting room of two and a third player joins.\<close>

definition room_rejoined :: GameRoom where
  "room_rejoined = run GameRoom_init
     [(0, JoinRoom 1 ''alice''), (1, JoinRoom 2 ''bob''), (2, LeaveRoom 1),
      (3, JoinRoom 3 ''carol'')]"

text \<open>Black lets the turn time run out twice; white plays a stone after each timeout.\<close>

definition room_two_timeouts :: GameRoom where
  "room_two_timeouts = run GameRoom_init
     [(0, JoinRoom 1 ''alice''), (1, JoinRoom 2 ''bob''), (2, Ready 1), (3, Ready 2),
      (63, TimeUp), (64, PlaceStone 2 7 7), (124, TimeUp), (125, PlaceStone 2 7 8)]"

text \<open>Black loses the connection three times in a running game, reconnecting twice in between.\<close>

definition room_third_disconnect :: GameRoom where
  "room_third_disconnect = run GameRoom_init
     [(0, JoinRoom 1 ''alice''), (1, JoinRoom 2 ''bob''), (2, Ready 1), (3, Ready 2),
      (10, ConnectionLost 1), (11, Reconnect 3 ''alice''), (12, ConnectionLost 3),
      (13, Reconnect 4 ''alice''), (14, ConnectionLost 4)]"

text \<open>Both players have joined and the first is ready; the game has started and black has played.\<close>

definition events_one_ready :: "(real \<times> event) list" where
  "events_one_ready = [(0, JoinRoom 1 ''alice''), (1, JoinRoom 2 ''bob''), (2, Ready 1)]"

definition events_in_play :: "(real \<times> event) list" where
  "events_in_play = [(0, JoinRoom 1 ''alice''), (1, JoinRoom 2 ''bob''), (2, Ready 1), (3, Ready 2),
     (10, PlaceStone 1 7 7)]"

text \<open>Black's connection is lost at time 10 of a running game.\<close>

definition events_disconnected :: "(real \<times> event) list" where
  "events_disconnected = [(0, JoinRoom 1 ''alice''), (1, JoinRoom 2 ''bob''), (2, Ready 1),
     (3, Ready 2), (10, ConnectionLost 1)]"

text \<open>
  Two players join under the same name; the game starts and the second player's connection
  is lost.
\<close>

definition room_same_name_lost :: GameRoom where
  "room_same_name_lost = run GameRoom_init
     [(0, JoinRoom 1 ''alice''), (1, JoinRoom 2 ''alice''), (2, Ready 1), (3, Ready 2),
      (10, ConnectionLost 2)]"

section \<open>Invariants of the reachable rooms\<close>

text \<open>
  What every room reached from a fresh one satisfies: at most two seats; a room with fewer
  than two seats is not in play; a room that is waiting or has fewer than two seats has an
  empty board and black to move; in a waiting room a seat without a connection is not ready;
  a paused room has a seat without a connection and no running timer; every disconnection
  record belongs to a seat without a connection and carries the current reconnect count of
  its name, below the maximum; the turn is black or white; the board is a well-formed 15 by 15
  grid.
\<close>

definition seats_ok :: "GameRoom \<Rightarrow> bool" where
  "seats_ok r \<longleftrightarrow>
     length (players r) \<le> 2 \<and>
     (length (players r) \<le> 1 \<longrightarrow> status r \<noteq> Playing) \<and>
     (length (players r) \<le> 1 \<or> status r = Waiting \<longrightarrow>
        grid (board r) = empty_grid 15 \<and> current_turn r = ''black'') \<and>
     (status r = Waiting \<longrightarrow> (\<forall>p \<in> set (players r). socket p = None \<longrightarrow> \<not> ready p)) \<and>
     (is_paused r \<longrightarrow> (\<exists>p \<in> set (players r). socket p = None)) \<and>
     (is_paused r \<longrightarrow> turn_start_time r = None) \<and>
     (current_turn r = ''black'' \<or> current_turn r = ''white'') \<and>
     wf_board (board r) \<and> bsize (board r) = 15"

definition records_ok :: "GameRoom \<Rightarrow> bool" where
  "records_ok r \<longleftrightarrow>
     (\<forall>e \<in> set (disconnected_players r).
        (\<exists>p \<in> set (players r). name p = fst e \<and> socket p = None) \<and>
        reconnect_count (snd e) = dict_get (reconnect_attempts r) (fst e) 0 \<and>
        reconnect_count (snd e) < max_reconnect_attempts)"

definition Inv :: "GameRoom \<Rightarrow> bool" where
  "Inv r \<longleftrightarrow> seats_ok r \<and> records_ok r"

subsection \<open>Stone counts\<close>

text \<open>
  The balance of the stones: black has as many stones as white or one more, and in a room in
  play it is black's turn exactly when the counts are equal.
\<close>

definition balanced :: "GameRoom \<Rightarrow> bool" where
  "balanced r \<longleftrightarrow>
     (count_color (board r) ''black'' = count_color (board r) ''white'' \<or>
      count_color (board r) ''black'' = count_color (board r) ''white'' + 1) \<and>
     (status r = Playing \<longrightarrow>
        (current_turn r = ''black'' \<and>
           count_color (board r) ''black'' = count_color (board r) ''white'') \<or>
        (current_turn r = ''white'' \<and>
           count_color (board r) ''black'' = count_color (board r) ''white'' + 1))"

fun is_ready_event :: "event \<Rightarrow> bool" where
  "is_ready_event (Ready s) = True"
| "is_ready_event ev = False"

text \<open>
  A sequence of events is calm from a room when no turn timeout fires in play and no READY
  takes a finished room back into play.
\<close>

fun calm :: "GameRoom \<Rightarrow> (real \<times> event) list \<Rightarrow> bool" where
  "calm r [] = True"
| "calm r ((now, ev) # evs) =
     (\<not> (ev = TimeUp \<and> timer_expired r now \<and> status r = Playing) \<and>
      \<not> (is_ready_event ev \<and> status r = Finished \<and> status (step r (now, ev)) = Playing) \<and>
      calm (step r (now, ev)) evs)"

text \<open>A short game without timeouts: three stones each way round, black to move.\<close>

definition events_four_stones :: "(real \<times> event) list" where
  "events_four_stones = [(0, JoinRoom 1 ''alice''), (1, JoinRoom 2 ''bob''), (2, Ready 1),
     (3, Ready 2), (10, PlaceStone 1 7 7), (20, PlaceStone 2 7 8), (30, PlaceStone 1 8 8)]"

section \<open>Properties of the board\<close>

lemma wf_board_init: "0 \<le> n \<Longrightarrow> wf_board (GomokuBoard_init n)"
  by (simp add: wf_board_def GomokuBoard_init_def empty_grid_def)

lemma cell_at_update:
  assumes "wf_board b" "is_valid_position b x y" "is_valid_position b i j"
  shows "cell_at (b\<lparr>grid := (grid b)[nat x := (grid b ! nat x)[nat y := v]]\<rparr>) i j =
         (if i = x \<and> j = y then v else cell_at b i j)"
proof -
  from assms have lx: "nat x < length (grid b)" and li: "nat i < length (grid b)"
    by (auto simp: wf_board_def is_valid_position_def)
  from assms lx have ly: "nat y < length (grid b ! nat x)"
    by (auto simp: wf_board_def is_valid_position_def)
  from assms have neq: "i = x \<longleftrightarrow> nat i = nat x" "j = y \<longleftrightarrow> nat j = nat y"
    by (auto simp: is_valid_position_def)
  show ?thesis
    using lx li ly neq by (auto simp: cell_at_def nth_list_update)
qed

text \<open>
  Claim C2. On a well-formed board \<^verbatim>\<open>place_stone\<close> fails with \<open>InvalidPosition\<close> when the
  position is out of range, with \<open>Occupied\<close> when it is in range and the cell is not empty,
  with \<open>BadColor\<close> when position and cell pass and the colour is neither black nor white, and
  otherwise returns \<^verbatim>\<open>True\<close> and sets exactly that cell to the colour. Whenever it fails the
  board is the one it was given.
\<close>

theorem place_stone_contract:
  assumes "wf_board b"
  shows "(\<not> is_valid_position b x y \<longrightarrow> place_stone b x y col = (Inl InvalidPosition, b)) \<and>
         (is_valid_position b x y \<and> cell_at b x y \<noteq> None \<longrightarrow>
            place_stone b x y col = (Inl Occupied, b)) \<and>
         (is_valid_position b x y \<and> cell_at b x y = None \<and> col \<noteq> ''black'' \<and> col \<noteq> ''white'' \<longrightarrow>
            place_stone b x y col = (Inl BadColor, b)) \<and>
         (is_valid_position b x y \<and> cell_at b x y = None \<and> (col = ''black'' \<or> col = ''white'') \<longrightarrow>
            fst (place_stone b x y col) = Inr True \<and>
            bsize (snd (place_stone b x y col)) = bsize b \<and>
            wf_board (snd (place_stone b x y col)) \<and>
            (\<forall>i j. is_valid_position b i j \<longrightarrow>
               cell_at (snd (place_stone b x y col)) i j =
                 (if i = x \<and> j = y then Some col else cell_at b i j))) \<and>
         ((\<exists>e. fst (place_stone b x y col) = Inl e) \<longrightarrow> snd (place_stone b x y col) = b)"
proof (intro conjI impI)
  assume h: "is_valid_position b x y \<and> cell_at b x y = None \<and> (col = ''black'' \<or> col = ''white'')"
  let ?b' = "snd (place_stone b x y col)"
  from h have eq: "place_stone b x y col =
      (Inr True, b\<lparr>grid := (grid b)[nat x := (grid b ! nat x)[nat y := Some col]]\<rparr>)"
    by (auto simp: place_stone_def is_empty_def)
  show "fst (place_stone b x y col) = Inr True" by (simp add: eq)
  show "bsize ?b' = bsize b" by (simp add: eq)
  show "wf_board ?b'"
    using assms h unfolding eq wf_board_def
    by (auto simp: is_valid_position_def dest!: set_update_subset_insert[THEN subsetD])
  show "\<forall>i j. is_valid_position b i j \<longrightarrow> cell_at ?b' i j = (if i = x \<and> j = y then Some col else cell_at b i j)"
    using cell_at_update[OF assms] h by (simp add: eq)
qed (auto simp: place_stone_def is_empty_def split: if_splits)

text \<open>The contract at the standard empty 15 by 15 board.\<close>

theorem place_stone_contract_witness:
  "wf_board (GomokuBoard_init 15) \<and>
   place_stone (GomokuBoard_init 15) 15 0 ''black'' = (Inl InvalidPosition, GomokuBoard_init 15) \<and>
   place_stone (GomokuBoard_init 15) 7 7 ''red'' = (Inl BadColor, GomokuBoard_init 15) \<and>
   cell_at (snd (place_stone (GomokuBoard_init 15) 7 7 ''black'')) 7 7 = Some ''black'' \<and>
   place_stone (snd (place_stone (GomokuBoard_init 15) 7 7 ''black'')) 7 7 ''white''
     = (Inl Occupied, snd (place_stone (GomokuBoard_init 15) 7 7 ''black''))"
proof -
  let ?b0 = "GomokuBoard_init 15"
  let ?b1 = "snd (place_stone ?b0 7 7 ''black'')"
  have wf0: "wf_board ?b0" by (simp add: wf_board_init)
  have v: "is_valid_position ?b0 7 7" "\<not> is_valid_position ?b0 15 0"
    by (simp_all add: is_valid_position_def GomokuBoard_init_def)
  have e: "cell_at ?b0 7 7 = None"
    by (simp add: cell_at_def GomokuBoard_init_def empty_grid_def)
  note c0 = place_stone_contract[OF wf0, of 7 7 "''black''"]
  from c0 v e have wf1: "wf_board ?b1" and s1: "bsize ?b1 = bsize ?b0"
    and c1: "cell_at ?b1 7 7 = Some ''black''" by auto
  from s1 v have v1: "is_valid_position ?b1 7 7" by (simp add: is_valid_position_def)
  from place_stone_contract[OF wf1, of 7 7 "''white''"] v1 c1
  have "place_stone ?b1 7 7 ''white'' = (Inl Occupied, ?b1)" by auto
  moreover from place_stone_contract[OF wf0, of 15 0 "''black''"] v
  have "place_stone ?b0 15 0 ''black'' = (Inl InvalidPosition, ?b0)" by auto
  moreover from place_stone_contract[OF wf0, of 7 7 "''red''"] v e
  have "place_stone ?b0 7 7 ''red'' = (Inl BadColor, ?b0)" by auto
  ultimately show ?thesis using wf0 c1 by simp
qed

subsection \<open>The winner check\<close>

lemma walk_run:
  "(\<forall>i<n. stone_at b c (nx + int i * dx) (ny + int i * dy)) \<Longrightarrow>
   \<not> stone_at b c (nx + int n * dx) (ny + int n * dy) \<Longrightarrow>
   walk b c nx ny dx dy cnt = Some (cnt + n)"
proof (induction n arbitrary: nx ny cnt)
  case 0
  then show ?case by (subst walk.simps) (auto simp: stone_at_def)
next
  case (Suc n)
  from Suc.prems(1) have here: "stone_at b c nx ny" by force
  have step: "\<forall>i<n. stone_at b c (nx + dx + int i * dx) (ny + dy + int i * dy)"
  proof (intro allI impI)
    fix i assume "i < n"
    then have "stone_at b c (nx + int (Suc i) * dx) (ny + int (Suc i) * dy)"
      using Suc.prems(1) by blast
    then show "stone_at b c (nx + dx + int i * dx) (ny + dy + int i * dy)"
      by (simp add: algebra_simps)
  qed
  have stop: "\<not> stone_at b c (nx + dx + int n * dx) (ny + dy + int n * dy)"
    using Suc.prems(2) by (simp add: algebra_simps)
  have "walk b c (nx + dx) (ny + dy) dx dy (cnt + 1) = Some (cnt + 1 + n)"
    by (rule Suc.IH[OF step stop])
  with here show ?case by (subst walk.simps) (simp add: stone_at_def)
qed

lemma first_gap:
  assumes "\<not> P (m::nat)"
  shows "\<exists>n. (\<forall>i<n. P i) \<and> \<not> P n"
proof -
  let ?n = "LEAST k. \<not> P k"
  have "\<not> P ?n" using assms by (rule LeastI)
  moreover have "\<forall>i<?n. P i" using not_less_Least by blast
  ultimately show ?thesis by blast
qed

lemma leaves_board:
  assumes "0 \<le> bsize b" "dx \<noteq> 0 \<or> dy \<noteq> 0"
  shows "\<exists>m. \<not> stone_at b c (nx + int m * dx) (ny + int m * dy)"
proof -
  define j where "j = \<bar>nx\<bar> + \<bar>ny\<bar> + bsize b + 1"
  have j0: "0 \<le> j" using assms(1) by (simp add: j_def)
  have jx: "\<bar>nx\<bar> + bsize b < j" and jy: "\<bar>ny\<bar> + bsize b < j"
    by (simp_all add: j_def)
  have up: "j \<le> j * d" if "1 \<le> d" for d
    using mult_left_mono[OF that j0] by simp
  have down: "j * d \<le> - j" if "d \<le> -1" for d
    using mult_left_mono[OF that j0] by simp
  have "\<not> is_valid_position b (nx + j * dx) (ny + j * dy)"
  proof (cases "dx \<noteq> 0")
    case True
    then consider "1 \<le> dx" | "dx \<le> -1" by linarith
    then show ?thesis
    proof cases
      case 1 with up[of dx] jx jy assms(1) show ?thesis unfolding is_valid_position_def by linarith
    next
      case 2 with down[of dx] jx jy assms(1) show ?thesis unfolding is_valid_position_def by linarith
    qed
  next
    case False
    with assms(2) consider "1 \<le> dy" | "dy \<le> -1" by linarith
    then show ?thesis
    proof cases
      case 1 with up[of dy] jx jy assms(1) show ?thesis unfolding is_valid_position_def by linarith
    next
      case 2 with down[of dy] jx jy assms(1) show ?thesis unfolding is_valid_position_def by linarith
    qed
  qed
  then have "\<not> stone_at b c (nx + int (nat j) * dx) (ny + int (nat j) * dy)"
    using j0 by (simp add: stone_at_def)
  then show ?thesis ..
qed

lemma run_length_ex:
  assumes "0 \<le> bsize b" "dx \<noteq> 0 \<or> dy \<noteq> 0"
  shows "\<exists>n. (\<forall>i<n. stone_at b c (nx + int i * dx) (ny + int i * dy)) \<and>
             \<not> stone_at b c (nx + int n * dx) (ny + int n * dy)"
proof -
  from leaves_board[OF assms] obtain m
    where "\<not> stone_at b c (nx + int m * dx) (ny + int m * dy)" ..
  then show ?thesis
    by (rule first_gap[where P = "\<lambda>i. stone_at b c (nx + int i * dx) (ny + int i * dy)"])
qed

lemma arm_ex:
  assumes "0 \<le> bsize b" "dx \<noteq> 0 \<or> dy \<noteq> 0"
  shows "\<exists>n. arm b c x y dx dy n"
proof -
  from run_length_ex[OF assms, of c "x + dx" "y + dy"] obtain n where
    a: "\<forall>i<n. stone_at b c (x + dx + int i * dx) (y + dy + int i * dy)" and
    s: "\<not> stone_at b c (x + dx + int n * dx) (y + dy + int n * dy)" by blast
  have "stone_at b c (x + j * dx) (y + j * dy)" if "1 \<le> j" "j \<le> int n" for j
  proof -
    from that have "nat (j - 1) < n" by linarith
    with a have "stone_at b c (x + dx + int (nat (j - 1)) * dx) (y + dy + int (nat (j - 1)) * dy)"
      by blast
    with that show ?thesis by (simp add: algebra_simps)
  qed
  moreover from s have "\<not> stone_at b c (x + (int n + 1) * dx) (y + (int n + 1) * dy)"
    by (simp add: algebra_simps)
  ultimately show ?thesis unfolding arm_def by blast
qed

lemma walk_arm:
  assumes "arm b c x y dx dy n"
  shows "walk b c (x + dx) (y + dy) dx dy cnt = Some (cnt + n)"
proof (rule walk_run)
  show "\<forall>i<n. stone_at b c (x + dx + int i * dx) (y + dy + int i * dy)"
  proof (intro allI impI)
    fix i assume "i < n"
    then have "stone_at b c (x + (int i + 1) * dx) (y + (int i + 1) * dy)"
      using assms unfolding arm_def by simp
    then show "stone_at b c (x + dx + int i * dx) (y + dy + int i * dy)"
      by (simp add: algebra_simps)
  qed
  show "\<not> stone_at b c (x + dx + int n * dx) (y + dy + int n * dy)"
    using assms unfolding arm_def by (simp add: algebra_simps)
qed

lemma walk_pair_count:
  assumes "arm b c x y dx dy p" "arm b c x y (- dx) (- dy) q"
  shows "walk_pair b c x y [(dx, dy), (- dx, - dy)] 1 = Some (1 + p + q)"
  using walk_arm[OF assms(1), of 1] walk_arm[OF assms(2), of "1 + p"]
  by simp

lemma arm_count_iff:
  assumes here: "stone_at b c x y"
    and f: "arm b c x y dx dy p" and g: "arm b c x y (- dx) (- dy) q"
  shows "5 \<le> 1 + p + q \<longleftrightarrow> spec_run_through b c x y 5 (dx, dy)"
proof
  assume len: "5 \<le> 1 + p + q"
  define k where "k = min q 4"
  have k5: "k \<in> {0..<5}" by (simp add: k_def)
  have "stone_at b c (x + (int i - int k) * dx) (y + (int i - int k) * dy)" if "i \<in> {0..<5}" for i
  proof -
    consider "int i - int k = 0" | "1 \<le> int i - int k" | "int i - int k \<le> -1" by linarith
    then show ?thesis
    proof cases
      case 1 with here show ?thesis by simp
    next
      case 2
      moreover from that len 2 have "int i - int k \<le> int p" by (auto simp: k_def min_def split: if_splits)
      ultimately show ?thesis using f unfolding arm_def by blast
    next
      case 3
      then have "1 \<le> int k - int i" by simp
      moreover have "int k - int i \<le> int q" by (simp add: k_def)
      ultimately have "stone_at b c (x + (int k - int i) * (- dx)) (y + (int k - int i) * (- dy))"
        using g unfolding arm_def by blast
      then show ?thesis by (simp add: algebra_simps)
    qed
  qed
  then have "\<forall>i \<in> {0..<5}. stone_at b c (x + (int i - int k) * dx) (y + (int i - int k) * dy)"
    by blast
  with k5 show "spec_run_through b c x y 5 (dx, dy)"
    unfolding spec_run_through_def fst_conv snd_conv by blast
next
  assume "spec_run_through b c x y 5 (dx, dy)"
  then obtain k where kin: "k \<in> {0..<5}"
    and all: "\<forall>i \<in> {0..<5}. stone_at b c (x + (int i - int k) * dx) (y + (int i - int k) * dy)"
    unfolding spec_run_through_def fst_conv snd_conv by blast
  from kin have k: "k < 5" by simp
  have run: "stone_at b c (x + (int i - int k) * dx) (y + (int i - int k) * dy)" if "i < 5" for i
    using all that by simp
  have "4 - k \<le> p"
  proof (rule ccontr)
    assume "\<not> 4 - k \<le> p"
    with k have i: "k + p + 1 < 5" by simp
    from run[OF i] have "stone_at b c (x + (int p + 1) * dx) (y + (int p + 1) * dy)"
      by (simp add: algebra_simps)
    with f show False unfolding arm_def by blast
  qed
  moreover have "k \<le> q"
  proof (rule ccontr)
    assume "\<not> k \<le> q"
    then have lt: "q < k" by simp
    with k have i: "k - q - 1 < 5" by simp
    from lt have e: "int (k - q - 1) - int k = - (int q + 1)" by simp
    have "stone_at b c (x + (- (int q + 1)) * dx) (y + (- (int q + 1)) * dy)"
      using run[OF i] unfolding e .
    then have "stone_at b c (x + (int q + 1) * (- dx)) (y + (int q + 1) * (- dy))"
      by (simp add: algebra_simps)
    with g show False unfolding arm_def by blast
  qed
  ultimately show "5 \<le> 1 + p + q" using k by simp
qed

lemma check_directions_axes:
  assumes here: "stone_at b c x y" and sz: "0 \<le> bsize b"
    and nz: "\<forall>d \<in> set axes. fst d \<noteq> 0 \<or> snd d \<noteq> 0"
  shows "check_directions b c x y (map (\<lambda>(dx, dy). [(dx, dy), (- dx, - dy)]) axes) =
         Some (if \<exists>d \<in> set axes. spec_run_through b c x y 5 d then Some c else None)"
  using nz
proof (induction axes)
  case Nil
  show ?case by simp
next
  case (Cons d axes)
  obtain dx dy where d: "d = (dx, dy)" by (cases d)
  from Cons.prems d have n1: "dx \<noteq> 0 \<or> dy \<noteq> 0" by simp
  then have n2: "- dx \<noteq> 0 \<or> - dy \<noteq> 0" by simp
  from arm_ex[OF sz n1] obtain p where p: "arm b c x y dx dy p" ..
  from arm_ex[OF sz n2] obtain q where q: "arm b c x y (- dx) (- dy) q" ..
  have cnt: "walk_pair b c x y [(dx, dy), (- dx, - dy)] 1 = Some (1 + p + q)"
    by (rule walk_pair_count[OF p q])
  have iff: "5 \<le> 1 + p + q \<longleftrightarrow> spec_run_through b c x y 5 (dx, dy)"
    by (rule arm_count_iff[OF here p q])
  from Cons.prems have "\<forall>d \<in> set axes. fst d \<noteq> 0 \<or> snd d \<noteq> 0" by simp
  from Cons.IH[OF this] cnt iff show ?case by (simp add: d)
qed

lemma directions_axes:
  "directions = map (\<lambda>(dx, dy). [(dx, dy), (- dx, - dy)]) spec_axes"
  by (simp add: directions_def spec_axes_def)

lemma board_get_valid:
  assumes "wf_board b" "is_valid_position b x y"
  shows "board_get b x y = Inr (cell_at b x y)"
proof -
  from assms have lx: "x < int (length (grid b))" "0 \<le> x"
    by (auto simp: wf_board_def is_valid_position_def)
  with assms have "grid b ! nat x \<in> set (grid b)" by simp
  with assms have ly: "y < int (length (grid b ! nat x))" "0 \<le> y"
    by (auto simp: wf_board_def is_valid_position_def)
  show ?thesis using lx ly by (simp add: board_get_def py_index_def cell_at_def)
qed

lemma longer_run:
  assumes "5 \<le> n" "spec_run_through b c x y n d"
  shows "spec_run_through b c x y 5 d"
proof -
  from assms(2) obtain k where k: "k < n"
    and all: "\<forall>i \<in> {0..<n}. stone_at b c (x + (int i - int k) * fst d) (y + (int i - int k) * snd d)"
    unfolding spec_run_through_def by auto
  define k' where "k' = min k 4"
  have "stone_at b c (x + (int i - int k') * fst d) (y + (int i - int k') * snd d)"
    if "i \<in> {0..<5}" for i
  proof -
    define i' where "i' = i + k - k'"
    from that k assms(1) have "i' \<in> {0..<n}" by (auto simp: i'_def k'_def min_def)
    moreover have "int i' - int k = int i - int k'" by (auto simp: i'_def k'_def min_def)
    ultimately show ?thesis using all by metis
  qed
  then have "\<forall>i \<in> {0..<5}. stone_at b c (x + (int i - int k') * fst d) (y + (int i - int k') * snd d)"
    by blast
  moreover have "k' \<in> {0..<5}" by (simp add: k'_def)
  ultimately show ?thesis unfolding spec_run_through_def by blast
qed

lemma check_winner_returns:
  assumes "wf_board b" "is_valid_position b x y"
  shows "check_winner b x y =
           Some (Inr (case cell_at b x y of
                        None \<Rightarrow> None
                      | Some c \<Rightarrow> if spec_winning_run b c x y then Some c else None))"
proof (cases "cell_at b x y")
  case None
  then show ?thesis by (simp add: check_winner_def board_get_valid[OF assms])
next
  case (Some c)
  with assms(2) have here: "stone_at b c x y" by (simp add: stone_at_def)
  from assms(1) have sz: "0 \<le> bsize b" by (simp add: wf_board_def)
  have nz: "\<forall>d \<in> set spec_axes. fst d \<noteq> 0 \<or> snd d \<noteq> 0" by (simp add: spec_axes_def)
  from check_directions_axes[OF here sz nz]
  have "check_directions b c x y directions =
          Some (if spec_winning_run b c x y then Some c else None)"
    by (simp add: directions_axes spec_winning_run_def)
  with Some show ?thesis by (simp add: check_winner_def board_get_valid[OF assms])
qed

text \<open>
  Claim C1. On a well-formed board and a position in range, \<^verbatim>\<open>check_winner\<close> returns the
  colour stored at \<open>(x, y)\<close> exactly when \<open>(x, y)\<close> lies in five consecutive stones of that
  colour along one of the four axes, and \<^verbatim>\<open>None\<close> otherwise, in particular for an empty cell.
  Lying in five consecutive stones is the same as lying in a run of some length \<open>n \<ge> 5\<close>,
  and a run of six through \<open>(x, y)\<close> makes the function return the colour.
\<close>

theorem check_winner_correct:
  assumes "wf_board b" "is_valid_position b x y"
  shows "check_winner b x y =
           Some (Inr (case cell_at b x y of
                        None \<Rightarrow> None
                      | Some c \<Rightarrow> if spec_winning_run b c x y then Some c else None)) \<and>
         (\<forall>c. spec_winning_run b c x y \<longleftrightarrow>
            (\<exists>n\<ge>5. \<exists>d \<in> set spec_axes. spec_run_through b c x y n d)) \<and>
         (\<forall>c. \<forall>d \<in> set spec_axes. cell_at b x y = Some c \<and> spec_run_through b c x y 6 d \<longrightarrow>
            check_winner b x y = Some (Inr (Some c)))"
proof -
  have main: "check_winner b x y =
           Some (Inr (case cell_at b x y of
                        None \<Rightarrow> None
                      | Some c \<Rightarrow> if spec_winning_run b c x y then Some c else None))"
    by (rule check_winner_returns[OF assms])
  have atleast: "spec_winning_run b c x y \<longleftrightarrow>
            (\<exists>n\<ge>5. \<exists>d \<in> set spec_axes. spec_run_through b c x y n d)" for c
    unfolding spec_winning_run_def using longer_run by blast
  have six: "check_winner b x y = Some (Inr (Some c))"
    if "d \<in> set spec_axes" "cell_at b x y = Some c" "spec_run_through b c x y 6 d" for c d
  proof -
    from that have "spec_winning_run b c x y" unfolding atleast by (intro exI[of _ 6]) auto
    with main that show ?thesis by simp
  qed
  from main atleast six show ?thesis by blast
qed

lemma board_five_grid: "grid board_five =
  [replicate 15 None, replicate 15 None, replicate 15 None, replicate 15 None,
   replicate 15 None, replicate 15 None, replicate 15 None,
   [None, None, None, Some ''black'', Some ''black'', Some ''black'', Some ''black'', Some ''black'',
    None, None, None, None, None, None, None],
   [None, None, None, Some ''white'', Some ''white'', Some ''white'', Some ''white'', None,
    None, None, None, None, None, None, None],
   replicate 15 None, replicate 15 None, replicate 15 None, replicate 15 None,
   replicate 15 None, replicate 15 None]"
  by code_simp

lemma board_five_size: "bsize board_five = 15" by code_simp

text \<open>
  The theorem at \<open>board_five\<close>: black wins at the fifth stone, the four white stones do not
  win, and an empty cell gives \<^verbatim>\<open>None\<close>.
\<close>

theorem check_winner_correct_witness:
  "wf_board board_five \<and> is_valid_position board_five 7 7 \<and>
   check_winner board_five 7 7 = Some (Inr (Some ''black'')) \<and>
   check_winner board_five 8 3 = Some (Inr None) \<and>
   check_winner board_five 0 0 = Some (Inr None)"
proof -
  have wf: "wf_board board_five" by code_simp
  have v: "is_valid_position board_five 7 7" "is_valid_position board_five 8 3"
    "is_valid_position board_five 0 0" by (simp_all add: is_valid_position_def board_five_size)
  have c: "cell_at board_five 7 7 = Some ''black''" "cell_at board_five 8 3 = Some ''white''"
    "cell_at board_five 0 0 = None" by (simp_all add: cell_at_def board_five_grid)
  have w: "spec_winning_run board_five ''black'' 7 7"
    unfolding spec_winning_run_def spec_run_through_def spec_axes_def stone_at_def
      is_valid_position_def cell_at_def board_five_grid board_five_size
    by (simp add: atLeast0_lessThan_Suc eval_nat_numeral)
  have l: "\<not> spec_winning_run board_five ''white'' 8 3"
    unfolding spec_winning_run_def spec_run_through_def spec_axes_def stone_at_def
      is_valid_position_def cell_at_def board_five_grid board_five_size
    by (simp add: atLeast0_lessThan_Suc eval_nat_numeral)
  have "check_winner board_five 7 7 = Some (Inr (Some ''black''))"
    using check_winner_correct[OF wf v(1), THEN conjunct1] by (simp only: c w option.case if_True)
  moreover have "check_winner board_five 8 3 = Some (Inr None)"
    using check_winner_correct[OF wf v(2), THEN conjunct1] by (simp only: c l option.case if_False)
  moreover have "check_winner board_five 0 0 = Some (Inr None)"
    using check_winner_correct[OF wf v(3), THEN conjunct1] by (simp only: c option.case)
  ultimately show ?thesis using wf v(1) by blast
qed

section \<open>Properties of the room\<close>

lemma swap_color_twice: "swap_color (swap_color c) = c"
  by (simp add: swap_color_def)

lemma grid_reset_empty: "grid (reset b) = empty_grid (bsize b)"
  by (simp add: reset_def)

text \<open>
  Claim C9. \<^verbatim>\<open>start_rematch\<close> clears the board, swaps black and white on every seat (so that
  two rematches in a row give each seat its colour back), sets the turn to black, marks every
  seat ready, sets the status to playing and empties the rematch requests. In a finished room
  with two seats, the request or the acceptance that completes the agreement runs exactly
  \<^verbatim>\<open>start_rematch\<close> and then arms the timer.
\<close>

theorem start_rematch_effect:
  "grid (board (start_rematch r)) = empty_grid (bsize (board r)) \<and>
   (\<forall>row \<in> set (grid (board (start_rematch r))). \<forall>cl \<in> set row. cl = None) \<and>
   map color (players (start_rematch r)) = map (swap_color \<circ> color) (players r) \<and>
   map name (players (start_rematch r)) = map name (players r) \<and>
   map socket (players (start_rematch r)) = map socket (players r) \<and>
   swap_color ''black'' = ''white'' \<and> swap_color ''white'' = ''black'' \<and>
   map color (players (start_rematch (start_rematch r))) = map color (players r) \<and>
   current_turn (start_rematch r) = ''black'' \<and>
   list_all ready (players (start_rematch r)) \<and>
   status (start_rematch r) = Playing \<and>
   rematch_requests (start_rematch r) = [] \<and>
   (status r = Finished \<and> length (players r) = 2 \<and> get_player_by_socket r s = Some p \<and>
      is_rematch_agreed (snd (request_rematch r (name p))) \<longrightarrow>
      handle_rematch r now s = start_timer (start_rematch (snd (request_rematch r (name p)))) now \<and>
      handle_rematch_response r now s True
        = start_timer (start_rematch (snd (request_rematch r (name p)))) now)"
proof -
  have g: "grid (board (start_rematch r)) = empty_grid (bsize (board r))"
    by (simp add: start_rematch_def reset_def)
  have e: "\<forall>row \<in> set (grid (board (start_rematch r))). \<forall>cl \<in> set row. cl = None"
    unfolding g by (auto simp: empty_grid_def)
  have c: "map color (players (start_rematch r)) = map (swap_color \<circ> color) (players r)" for r
    by (simp add: start_rematch_def)
  have c2: "map color (players (start_rematch (start_rematch r))) = map color (players r)"
    by (simp add: start_rematch_def swap_color_twice comp_def)
  have rd: "list_all ready (players (start_rematch r))"
    by (simp add: start_rematch_def list_all_iff)
  have h: "handle_rematch r now s = start_timer (start_rematch (snd (request_rematch r (name p)))) now \<and>
      handle_rematch_response r now s True
        = start_timer (start_rematch (snd (request_rematch r (name p)))) now"
    if "status r = Finished" "get_player_by_socket r s = Some p"
       "is_rematch_agreed (snd (request_rematch r (name p)))"
    using that by (simp add: handle_rematch_def handle_rematch_response_def request_rematch_def)
  show ?thesis
    using g e c c2 rd h
    by (simp add: start_rematch_def swap_color_def)
qed

text \<open>The rematch of the concrete session: bob (white) accepts alice's request.\<close>

theorem start_rematch_effect_witness:
  "status room_rematch_pending = Finished \<and> length (players room_rematch_pending) = 2 \<and>
   cell_at (board room_rematch_pending) 7 7 = Some ''black'' \<and>
   map color (players room_rematch_pending) = [''black'', ''white''] \<and>
   map color (players (handle_rematch_response room_rematch_pending 35 2 True)) = [''white'', ''black''] \<and>
   status (handle_rematch_response room_rematch_pending 35 2 True) = Playing \<and>
   grid (board (handle_rematch_response room_rematch_pending 35 2 True)) = empty_grid 15 \<and>
   turn_start_time (handle_rematch_response room_rematch_pending 35 2 True) = Some 35"
proof -
  let ?p = "\<lparr>socket = Some 2, name = ''bob'', color = ''white'', ready = True\<rparr>"
  let ?r1 = "snd (request_rematch room_rematch_pending ''bob'')"
  have f: "status room_rematch_pending = Finished" by code_simp
  have l: "length (players room_rematch_pending) = 2" by code_simp
  have g: "get_player_by_socket room_rematch_pending 2 = Some ?p" by code_simp
  have a: "is_rematch_agreed ?r1" by code_simp
  have c: "map color (players room_rematch_pending) = [''black'', ''white'']" by code_simp
  have b: "cell_at (board room_rematch_pending) 7 7 = Some ''black''" by code_simp
  have z: "bsize (board ?r1) = 15" by code_simp
  have n: "\<not> is_paused (start_rematch ?r1)" by code_simp
  have c1: "map color (players ?r1) = [''black'', ''white'']" by code_simp
  note t = start_rematch_effect[where r = room_rematch_pending and s = 2 and p = ?p and now = 35]
  from t f l g a have h: "handle_rematch_response room_rematch_pending 35 2 True
      = start_timer (start_rematch ?r1) 35" by simp
  from start_rematch_effect[where r = ?r1] have "map color (players (start_rematch ?r1)) = map (swap_color \<circ> color) (players ?r1)"
    and "status (start_rematch ?r1) = Playing"
    and "grid (board (start_rematch ?r1)) = empty_grid (bsize (board ?r1))" by blast+
  then show ?thesis
    using f l b c unfolding h
    by (simp add: start_timer_def n z c1 map_map[symmetric] swap_color_def del: map_map)
qed

text \<open>
  Claim C3, evaluated where the code leaves the invariant: after the black seat has left a
  waiting room and a new player has joined, the room has two seats and both are white.
\<close>

theorem rejoin_gives_two_white_seats:
  "length (players room_rejoined) = 2 \<and> map color (players room_rejoined) = [''white'', ''white'']"
  by code_simp

text \<open>
  Claim C7, evaluated where the code differs: when the connection is lost with the reconnect
  count at its maximum, the room stays in play and paused, no disconnection record exists, so
  neither a reconnect nor a later sweep of the monitor ends the game.
\<close>

theorem third_disconnect_pauses_forever:
  "status room_third_disconnect = Playing \<and> is_paused room_third_disconnect \<and>
   map socket (players room_third_disconnect) = [None, Some 2] \<and>
   reconnect_attempts room_third_disconnect = [(''alice'', 2)] \<and>
   disconnected_players room_third_disconnect = [] \<and>
   \<not> can_reconnect room_third_disconnect 15 ''alice'' \<and>
   status (step room_third_disconnect (1000, MonitorSweep)) = Playing"
  by code_simp

text \<open>
  Claim C8 fails as stated: in a running game white has two stones on the board and black
  none, after black has twice let the turn time run out.
\<close>

theorem stone_counts_counterexample:
  "status room_two_timeouts = Playing \<and>
   count_color (board room_two_timeouts) ''black'' = 0 \<and>
   count_color (board room_two_timeouts) ''white'' = 2"
  by code_simp

section \<open>The invariants hold in every reachable room\<close>

lemma length_update_first [simp]: "length (update_first P f xs) = length xs"
  by (induction xs) auto

lemma set_update_first:
  "q \<in> set (update_first P f xs) \<Longrightarrow> q \<in> set xs \<or> (\<exists>x \<in> set xs. P x \<and> q = f x)"
  by (induction xs) (auto split: if_splits)

lemma keep_update_first:
  "x \<in> set xs \<Longrightarrow> \<not> P x \<Longrightarrow> x \<in> set (update_first P f xs)"
  by (induction xs) auto

lemma hit_update_first:
  "x \<in> set xs \<Longrightarrow> P x \<Longrightarrow> \<exists>y \<in> set xs. P y \<and> f y \<in> set (update_first P f xs)"
  by (induction xs) auto

lemma find_SomeD: "find P xs = Some x \<Longrightarrow> x \<in> set xs \<and> P x"
  by (induction xs) (auto split: if_splits)

lemma set_alist_update:
  "e \<in> set (AList.update k v al) \<Longrightarrow> e = (k, v) \<or> e \<in> set al"
  by (induction al) (auto split: if_splits)

lemma set_alist_delete:
  "e \<in> set (AList.delete k al) \<longleftrightarrow> e \<in> set al \<and> fst e \<noteq> k"
  by (auto simp: AList.delete_eq)

lemma dict_get_update:
  "dict_get (AList.update k v al) k' dflt = (if k' = k then v else dict_get al k' dflt)"
  by (simp add: dict_get_def update_conv')

lemma wf_empty: "wf_board \<lparr>bsize = 15, grid = empty_grid 15\<rparr>"
  by (simp add: wf_board_def empty_grid_def)

lemma wf_reset: "bsize b = 15 \<Longrightarrow> wf_board (reset b)"
  by (simp add: wf_board_def reset_def empty_grid_def)

lemma Inv_init: "Inv GameRoom_init"
  by (simp add: Inv_def seats_ok_def records_ok_def GameRoom_init_def GomokuBoard_init_def
      wf_board_def empty_grid_def)

lemma records_ok_cong:
  "players r' = players r \<Longrightarrow> disconnected_players r' = disconnected_players r \<Longrightarrow>
   reconnect_attempts r' = reconnect_attempts r \<Longrightarrow> records_ok r' = records_ok r"
  by (simp add: records_ok_def)

lemma records_okD:
  "records_ok r \<Longrightarrow> e \<in> set (disconnected_players r) \<Longrightarrow>
     (\<exists>p \<in> set (players r). name p = fst e \<and> socket p = None) \<and>
     reconnect_count (snd e) = dict_get (reconnect_attempts r) (fst e) 0 \<and>
     reconnect_count (snd e) < max_reconnect_attempts"
  unfolding records_ok_def by blast

lemma seats_ok_start_timer: "seats_ok r \<Longrightarrow> seats_ok (start_timer r now)"
  unfolding seats_ok_def start_timer_def by auto

lemma seats_ok_stop_timer: "seats_ok r \<Longrightarrow> seats_ok (stop_timer r)"
  unfolding seats_ok_def stop_timer_def by auto

lemma records_ok_start_timer: "records_ok (start_timer r now) = records_ok r"
  by (rule records_ok_cong) (simp_all add: start_timer_def)

lemma records_ok_stop_timer: "records_ok (stop_timer r) = records_ok r"
  by (rule records_ok_cong) (simp_all add: stop_timer_def)

lemma Inv_start_timer: "Inv r \<Longrightarrow> Inv (start_timer r now)"
  by (simp add: Inv_def seats_ok_start_timer records_ok_start_timer)

lemma Inv_stop_timer: "Inv r \<Longrightarrow> Inv (stop_timer r)"
  by (simp add: Inv_def seats_ok_stop_timer records_ok_stop_timer)

lemma Inv_add_player: "Inv r \<Longrightarrow> Inv (snd (add_player r s n))"
  unfolding Inv_def seats_ok_def records_ok_def add_player_def by (auto simp: Let_def)

lemma Inv_remove_player:
  assumes I: "Inv r"
  shows "Inv (snd (remove_player r now s dis))"
proof (cases "find (\<lambda>p. socket p = Some s) (players r)")
  case None
  then show ?thesis using I by (simp add: remove_player_def)
next
  case (Some p)
  then have pin: "p \<in> set (players r)" and live: "socket p = Some s"
    by (auto dest: find_SomeD)
  from I have S: "seats_ok r" and R: "records_ok r" by (simp_all add: Inv_def)
  show ?thesis
  proof (cases "dis \<and> status r = Playing")
    case True
    let ?ps = "update_first (\<lambda>q. socket q = Some s) (\<lambda>q. q\<lparr>socket := None\<rparr>) (players r)"
    let ?d = "\<lparr>disconnect_time = now, player_data = p, last_color = color p,
               reconnect_count = dict_get (reconnect_attempts r) (name p) 0\<rparr>"
    have keep: "\<exists>q \<in> set ?ps. name q = n \<and> socket q = None"
      if "\<exists>q \<in> set (players r). name q = n \<and> socket q = None" for n
    proof -
      from that obtain q where q: "q \<in> set (players r)" "name q = n" "socket q = None" by blast
      then have "q \<in> set ?ps" by (intro keep_update_first) auto
      with q show ?thesis by blast
    qed
    have first: "find (\<lambda>p. socket p = Some s) xs = Some p \<Longrightarrow>
        \<exists>q \<in> set (update_first (\<lambda>q. socket q = Some s) (\<lambda>q. q\<lparr>socket := None\<rparr>) xs).
          name q = name p \<and> socket q = None" for xs
      by (induction xs) (auto split: if_splits)
    have mine: "\<exists>q \<in> set ?ps. name q = name p \<and> socket q = None"
      by (rule first[OF Some])
    then have dead: "\<exists>q \<in> set ?ps. socket q = None" by blast
    define r2 where "r2 = r\<lparr>players := ?ps, is_paused := True, turn_start_time := None\<rparr>"
    have S2: "seats_ok r2"
      using S True dead unfolding seats_ok_def r2_def by simp
    have R2: "records_ok r2"
      unfolding records_ok_def
    proof
      fix e assume "e \<in> set (disconnected_players r2)"
      then have e: "e \<in> set (disconnected_players r)" by (simp add: r2_def)
      from records_okD[OF R this] have "(\<exists>p \<in> set (players r). name p = fst e \<and> socket p = None)"
        and c: "reconnect_count (snd e) = dict_get (reconnect_attempts r) (fst e) 0"
           "reconnect_count (snd e) < max_reconnect_attempts"
        by blast+
      from keep[OF this(1)] c
      show "(\<exists>p \<in> set (players r2). name p = fst e \<and> socket p = None) \<and>
        reconnect_count (snd e) = dict_get (reconnect_attempts r2) (fst e) 0 \<and>
        reconnect_count (snd e) < max_reconnect_attempts"
        by (simp add: r2_def)
    qed
    show ?thesis
    proof (cases "dict_get (reconnect_attempts r) (name p) 0 < max_reconnect_attempts")
      case lt: True
      have eq: "snd (remove_player r now s dis) =
          r2\<lparr>disconnected_players := AList.update (name p) ?d (disconnected_players r)\<rparr>"
        using Some True lt by (simp add: remove_player_def Let_def stop_timer_def r2_def)
      have "seats_ok (r2\<lparr>disconnected_players := AList.update (name p) ?d (disconnected_players r)\<rparr>)"
        using S2 by (simp add: seats_ok_def)
      moreover have "records_ok (r2\<lparr>disconnected_players := AList.update (name p) ?d (disconnected_players r)\<rparr>)"
        unfolding records_ok_def
      proof
        fix e
        assume "e \<in> set (disconnected_players
           (r2\<lparr>disconnected_players := AList.update (name p) ?d (disconnected_players r)\<rparr>))"
        then have "e = (name p, ?d) \<or> e \<in> set (disconnected_players r2)"
          by (auto simp: r2_def dest: set_alist_update)
        then show "(\<exists>q \<in> set (players (r2\<lparr>disconnected_players := AList.update (name p) ?d (disconnected_players r)\<rparr>)).
                      name q = fst e \<and> socket q = None) \<and>
          reconnect_count (snd e) = dict_get (reconnect_attempts (r2\<lparr>disconnected_players := AList.update (name p) ?d (disconnected_players r)\<rparr>)) (fst e) 0 \<and>
          reconnect_count (snd e) < max_reconnect_attempts"
        proof
          assume "e = (name p, ?d)"
          with mine lt show ?thesis by (simp add: r2_def)
        next
          assume "e \<in> set (disconnected_players r2)"
          from records_okD[OF R2 this] show ?thesis by simp
        qed
      qed
      ultimately show ?thesis unfolding eq Inv_def by simp
    next
      case ge: False
      have eq: "snd (remove_player r now s dis) = r2"
        using Some True ge by (simp add: remove_player_def Let_def stop_timer_def r2_def)
      show ?thesis unfolding eq Inv_def using S2 R2 by simp
    qed
  next
    case False
    let ?ps = "remove1 p (players r)"
    have len: "length ?ps = length (players r) - 1"
      using pin by (simp add: length_remove1)
    have keepq: "q \<in> set ?ps" if "q \<in> set (players r)" "socket q = None" for q
    proof -
      from that live have "q \<noteq> p" by auto
      with that show ?thesis by (simp add: in_set_remove1)
    qed
    from S have l2: "length (players r) \<le> 2" by (simp add: seats_ok_def)
    have l0: "length (players r) > 0" using pin by (cases "players r") auto
    consider (one) "length ?ps = 1" | (zero) "length ?ps = 0"
      using len l2 l0 by linarith
    then show ?thesis
    proof cases
      case one
      let ?qs = "map (\<lambda>q. q\<lparr>ready := False\<rparr>) ?ps"
      have eq: "snd (remove_player r now s dis) =
          r\<lparr>players := ?qs, status := Waiting,
            board := reset (board r), current_turn := ''black'', turn_start_time := None,
            rematch_requests := []\<rparr>"
        using Some False one by (auto simp: remove_player_def Let_def stop_timer_def)
      have keep': "\<exists>q \<in> set ?qs. name q = n \<and> socket q = None"
        if "\<exists>q \<in> set (players r). name q = n \<and> socket q = None" for n
      proof -
        from that obtain q where q: "q \<in> set (players r)" "name q = n" "socket q = None" by blast
        then have "q\<lparr>ready := False\<rparr> \<in> set ?qs" using keepq by simp
        with q show ?thesis by (intro bexI[of _ "q\<lparr>ready := False\<rparr>"]) simp_all
      qed
      have dead': "\<exists>q \<in> set ?qs. socket q = None"
        if "\<exists>q \<in> set (players r). socket q = None"
      proof -
        from that obtain q where q: "q \<in> set (players r)" "socket q = None" by blast
        then have "q\<lparr>ready := False\<rparr> \<in> set ?qs" using keepq by simp
        with q show ?thesis by (intro bexI[of _ "q\<lparr>ready := False\<rparr>"]) simp_all
      qed
      from S have bz: "bsize (board r) = 15" by (simp add: seats_ok_def)
      have g: "grid (reset (board r)) = empty_grid 15" "bsize (reset (board r)) = 15"
        using bz by (simp_all add: reset_def)
      have "seats_ok (snd (remove_player r now s dis))"
        unfolding eq seats_ok_def using S one dead' g wf_reset[OF bz]
        by (simp add: seats_ok_def)
      moreover have "records_ok (snd (remove_player r now s dis))"
        unfolding eq records_ok_def
      proof
        fix e
        assume "e \<in> set (disconnected_players (r\<lparr>players := ?qs, status := Waiting,
            board := reset (board r), current_turn := ''black'', turn_start_time := None,
            rematch_requests := []\<rparr>))"
        then have "e \<in> set (disconnected_players r)" by simp
        from records_okD[OF R this] keep'[of "fst e"]
        show "(\<exists>p \<in> set (players (r\<lparr>players := ?qs, status := Waiting,
            board := reset (board r), current_turn := ''black'', turn_start_time := None,
            rematch_requests := []\<rparr>)). name p = fst e \<and> socket p = None) \<and>
          reconnect_count (snd e) = dict_get (reconnect_attempts (r\<lparr>players := ?qs, status := Waiting,
            board := reset (board r), current_turn := ''black'', turn_start_time := None,
            rematch_requests := []\<rparr>)) (fst e) 0 \<and>
          reconnect_count (snd e) < max_reconnect_attempts"
          by simp
      qed
      ultimately show ?thesis by (simp add: Inv_def)
    next
      case zero
      have eq: "snd (remove_player r now s dis) = r\<lparr>players := ?ps, status := Waiting\<rparr>"
        using Some False zero by (auto simp: remove_player_def Let_def)
      from zero len have l1: "length (players r) \<le> 1" by simp
      have nodead: "\<not> (\<exists>q \<in> set (players r). socket q = None)"
      proof
        assume "\<exists>q \<in> set (players r). socket q = None"
        then obtain q where "q \<in> set (players r)" "socket q = None" by blast
        then have "q \<in> set ?ps" by (rule keepq)
        with zero show False by simp
      qed
      have "seats_ok (snd (remove_player r now s dis))"
        unfolding eq seats_ok_def using S zero l1 nodead
        by (simp add: seats_ok_def)
      moreover have "records_ok (snd (remove_player r now s dis))"
        unfolding eq records_ok_def
      proof
        fix e
        assume "e \<in> set (disconnected_players (r\<lparr>players := ?ps, status := Waiting\<rparr>))"
        then have "e \<in> set (disconnected_players r)" by simp
        from records_okD[OF R this] nodead have False by blast
        then show "(\<exists>q \<in> set (players (r\<lparr>players := ?ps, status := Waiting\<rparr>)).
                      name q = fst e \<and> socket q = None) \<and>
          reconnect_count (snd e)
            = dict_get (reconnect_attempts (r\<lparr>players := ?ps, status := Waiting\<rparr>)) (fst e) 0 \<and>
          reconnect_count (snd e) < max_reconnect_attempts" ..
      qed
      ultimately show ?thesis by (simp add: Inv_def)
    qed
  qed
qed

lemma dead_update_first_iff:
  fixes q :: player
  assumes a1: "\<forall>x. P x \<longrightarrow> socket x \<noteq> None" and a2: "\<forall>x. P x \<longrightarrow> socket (f x) \<noteq> None"
  shows "q \<in> set (update_first P f xs) \<and> socket q = None \<longleftrightarrow> q \<in> set xs \<and> socket q = None"
proof
  assume h: "q \<in> set (update_first P f xs) \<and> socket q = None"
  then have "q \<in> set xs \<or> (\<exists>x \<in> set xs. P x \<and> q = f x)"
    by (blast dest: set_update_first)
  moreover have "\<not> (\<exists>x \<in> set xs. P x \<and> q = f x)"
    using h a2 by blast
  ultimately show "q \<in> set xs \<and> socket q = None" using h by blast
next
  assume h: "q \<in> set xs \<and> socket q = None"
  with a1 have "\<not> P q" by blast
  with h show "q \<in> set (update_first P f xs) \<and> socket q = None"
    by (simp add: keep_update_first)
qed

lemma records_ok_players:
  assumes "records_ok r"
    and "\<And>q. q \<in> set (players r) \<Longrightarrow> socket q = None \<Longrightarrow>
            \<exists>q' \<in> set ps. name q' = name q \<and> socket q' = None"
  shows "records_ok (r\<lparr>players := ps\<rparr>)"
  unfolding records_ok_def
proof
  fix e assume "e \<in> set (disconnected_players (r\<lparr>players := ps\<rparr>))"
  then have "e \<in> set (disconnected_players r)" by simp
  from records_okD[OF assms(1) this] obtain p where
    p: "p \<in> set (players r)" "name p = fst e" "socket p = None"
    and c: "reconnect_count (snd e) = dict_get (reconnect_attempts r) (fst e) 0"
           "reconnect_count (snd e) < max_reconnect_attempts" by blast
  from assms(2)[OF p(1) p(3)] p(2) c
  show "(\<exists>p \<in> set (players (r\<lparr>players := ps\<rparr>)). name p = fst e \<and> socket p = None) \<and>
     reconnect_count (snd e) = dict_get (reconnect_attempts (r\<lparr>players := ps\<rparr>)) (fst e) 0 \<and>
     reconnect_count (snd e) < max_reconnect_attempts" by simp
qed

lemma Inv_set_player_ready:
  assumes I: "Inv r"
  shows "Inv (snd (set_player_ready r s b))"
proof (cases "find (\<lambda>p. socket p = Some s) (players r)")
  case None
  then show ?thesis using I by (simp add: set_player_ready_def)
next
  case (Some p)
  let ?ps = "update_first (\<lambda>q. socket q = Some s) (\<lambda>q. q\<lparr>ready := b\<rparr>) (players r)"
  have eq: "snd (set_player_ready r s b) = r\<lparr>players := ?ps\<rparr>"
    using Some by (simp add: set_player_ready_def)
  have dead: "q \<in> set ?ps \<and> socket q = None \<longleftrightarrow> q \<in> set (players r) \<and> socket q = None" for q
    by (rule dead_update_first_iff) auto
  from I have S: "seats_ok r" and R: "records_ok r" by (simp_all add: Inv_def)
  have "seats_ok (r\<lparr>players := ?ps\<rparr>)"
    using S dead unfolding seats_ok_def by (simp; blast)
  moreover have "records_ok (r\<lparr>players := ?ps\<rparr>)"
    using R dead by (intro records_ok_players) blast+
  ultimately show ?thesis by (simp add: eq Inv_def)
qed

lemma Inv_start_game:
  assumes I: "Inv r" and l: "2 \<le> length (players r)"
  shows "Inv (r\<lparr>status := Playing\<rparr>)"
proof -
  from I have S: "seats_ok r" and R: "records_ok r" by (simp_all add: Inv_def)
  have "seats_ok (r\<lparr>status := Playing\<rparr>)" using S l unfolding seats_ok_def by simp
  moreover have "records_ok (r\<lparr>status := Playing\<rparr>) = records_ok r"
    by (rule records_ok_cong) simp_all
  ultimately show ?thesis using R by (simp add: Inv_def)
qed

lemma Inv_handle_ready: "Inv r \<Longrightarrow> Inv (handle_ready r now s)"
  unfolding handle_ready_def
  by (auto simp: Let_def are_all_players_ready_def split: option.splits if_splits
      intro!: Inv_start_timer Inv_start_game Inv_set_player_ready)

lemma Inv_finish:
  assumes I: "Inv r"
  shows "Inv (r\<lparr>status := Finished\<rparr>)"
proof -
  from I have S: "seats_ok r" and R: "records_ok r" by (simp_all add: Inv_def)
  have "seats_ok (r\<lparr>status := Finished\<rparr>)" using S unfolding seats_ok_def by simp
  moreover have "records_ok (r\<lparr>status := Finished\<rparr>) = records_ok r"
    by (rule records_ok_cong) simp_all
  ultimately show ?thesis using R by (simp add: Inv_def)
qed

lemma Inv_switch_turn:
  assumes I: "Inv r" and p: "status r = Playing"
  shows "Inv (switch_turn r)"
proof -
  from I have S: "seats_ok r" and R: "records_ok r" by (simp_all add: Inv_def)
  have "seats_ok (switch_turn r)" using S p unfolding seats_ok_def switch_turn_def by auto
  moreover have "records_ok (switch_turn r) = records_ok r"
    by (rule records_ok_cong) (simp_all add: switch_turn_def)
  ultimately show ?thesis using R by (simp add: Inv_def)
qed

lemma Inv_handle_timer_event: "Inv r \<Longrightarrow> Inv (handle_timer_event r now ev)"
  unfolding handle_timer_event_def
  by (auto split: timer_event.splits intro!: Inv_start_timer Inv_switch_turn)

lemma Inv_handle_surrender: "Inv r \<Longrightarrow> Inv (handle_surrender r s)"
  unfolding handle_surrender_def
  by (auto split: option.splits intro!: Inv_finish Inv_stop_timer)

lemma place_stone_wf:
  assumes "wf_board b"
  shows "wf_board (snd (place_stone b x y c)) \<and> bsize (snd (place_stone b x y c)) = bsize b"
proof -
  have "length row' = nat (bsize b)"
    if "row' \<in> set ((grid b)[nat x := (grid b ! nat x)[nat y := Some c]])" "nat x < length (grid b)"
    for row'
  proof -
    from that(1) have "row' = (grid b ! nat x)[nat y := Some c] \<or> row' \<in> set (grid b)"
      by (auto dest: set_update_subset_insert[THEN subsetD])
    moreover have "grid b ! nat x \<in> set (grid b)" using that(2) by simp
    ultimately show ?thesis using assms by (auto simp: wf_board_def)
  qed
  then show ?thesis
    using assms unfolding place_stone_def wf_board_def is_valid_position_def
    by (auto simp: nat_less_iff)
qed

lemma Inv_board:
  assumes I: "Inv r" and p: "status r = Playing" and w: "wf_board b" "bsize b = 15"
  shows "Inv (r\<lparr>board := b\<rparr>)"
proof -
  from I have S: "seats_ok r" and R: "records_ok r" by (simp_all add: Inv_def)
  have "seats_ok (r\<lparr>board := b\<rparr>)" using S p w unfolding seats_ok_def by auto
  moreover have "records_ok (r\<lparr>board := b\<rparr>) = records_ok r"
    by (rule records_ok_cong) simp_all
  ultimately show ?thesis using R by (simp add: Inv_def)
qed

lemma Inv_handle_place_stone:
  assumes I: "Inv r"
  shows "Inv (handle_place_stone r now s x y)"
proof (cases "get_player_by_socket r s")
  case None
  then show ?thesis using I by (simp add: handle_place_stone_def)
next
  case (Some p)
  show ?thesis
  proof (cases "status r = Playing \<and> color p = current_turn r")
    case False
    then show ?thesis using I Some by (auto simp: handle_place_stone_def)
  next
    case True
    obtain res b' where ps: "place_stone (board r) x y (color p) = (res, b')"
      by (cases "place_stone (board r) x y (color p)")
    show ?thesis
    proof (cases res)
      case (Inl e)
      then show ?thesis using I Some True ps by (simp add: handle_place_stone_def)
    next
      case (Inr ok)
      from I have "wf_board (board r)" "bsize (board r) = 15" by (simp_all add: Inv_def seats_ok_def)
      with place_stone_wf[of "board r" x y "color p"] ps
      have w: "wf_board b'" "bsize b' = 15" by simp_all
      let ?r1 = "r\<lparr>board := b'\<rparr>"
      have I1: "Inv ?r1" using I True w by (intro Inv_board) simp_all
      have p1: "status ?r1 = Playing" using True by simp
      have A: "Inv ((stop_timer ?r1)\<lparr>status := Finished\<rparr>)"
        by (intro Inv_finish Inv_stop_timer I1)
      have B: "Inv (start_timer (switch_turn (stop_timer ?r1)) now)"
        using p1 by (intro Inv_start_timer Inv_switch_turn Inv_stop_timer I1) (simp add: stop_timer_def)
      show ?thesis
        using Some True ps Inr A B I1
        by (auto simp: handle_place_stone_def Let_def split: option.splits sum.splits)
    qed
  qed
qed

lemma Inv_requests:
  assumes "Inv r"
  shows "Inv (r\<lparr>rematch_requests := q\<rparr>)"
proof -
  have "seats_ok (r\<lparr>rematch_requests := q\<rparr>) = seats_ok r" by (simp add: seats_ok_def)
  moreover have "records_ok (r\<lparr>rematch_requests := q\<rparr>) = records_ok r"
    by (rule records_ok_cong) simp_all
  ultimately show ?thesis using assms by (simp add: Inv_def)
qed

lemma Inv_request_rematch: "Inv r \<Longrightarrow> Inv (snd (request_rematch r n))"
  by (simp add: request_rematch_def Inv_requests)

lemma Inv_start_rematch:
  assumes I: "Inv r" and l: "length (players r) = 2"
  shows "Inv (start_rematch r)"
proof -
  from I have S: "seats_ok r" and R: "records_ok r" by (simp_all add: Inv_def)
  let ?f = "\<lambda>p. p\<lparr>color := swap_color (color p), ready := True\<rparr>"
  have dead: "\<exists>q' \<in> set (map ?f (players r)). name q' = name q \<and> socket q' = None"
    if "q \<in> set (players r)" "socket q = None" for q
    using that by (intro bexI[of _ "?f q"]) simp_all
  from S have bz: "bsize (board r) = 15" by (simp add: seats_ok_def)
  have "seats_ok (start_rematch r)"
    using S l dead wf_reset[OF bz] bz unfolding seats_ok_def start_rematch_def
    by (auto simp: reset_def)
  moreover have "records_ok (r\<lparr>players := map ?f (players r)\<rparr>)"
    using R dead by (rule records_ok_players)
  moreover have "records_ok (start_rematch r) = records_ok (r\<lparr>players := map ?f (players r)\<rparr>)"
    by (rule records_ok_cong) (simp_all add: start_rematch_def)
  ultimately show ?thesis by (simp add: Inv_def)
qed

lemma Inv_handle_rematch: "Inv r \<Longrightarrow> Inv (handle_rematch r now s)"
  unfolding handle_rematch_def
  by (auto simp: is_rematch_agreed_def request_rematch_def split: option.splits if_splits
      intro!: Inv_start_timer Inv_start_rematch Inv_requests)

lemma Inv_handle_rematch_response: "Inv r \<Longrightarrow> Inv (handle_rematch_response r now s a)"
  unfolding handle_rematch_response_def
  by (auto simp: is_rematch_agreed_def request_rematch_def Let_def split: option.splits if_splits
      intro!: Inv_start_timer Inv_start_rematch Inv_requests)

lemma Inv_reconnect_player:
  assumes I: "Inv r"
  shows "Inv (snd (reconnect_player r now n s))"
proof (cases "map_of (disconnected_players r) n \<noteq> None \<and> can_reconnect r now n")
  case False
  then show ?thesis using I by (auto simp: reconnect_player_def)
next
  case True
  from I have S: "seats_ok r" and R: "records_ok r" by (simp_all add: Inv_def)
  let ?ps = "update_first (\<lambda>q. name q = n) (\<lambda>q. q\<lparr>socket := Some s\<rparr>) (players r)"
  let ?at = "AList.update n (dict_get (reconnect_attempts r) n 0 + 1) (reconnect_attempts r)"
  let ?dp = "AList.delete n (disconnected_players r)"
  define r1 where "r1 = r\<lparr>reconnect_attempts := ?at, players := ?ps, disconnected_players := ?dp\<rparr>"
  have orig: "q \<in> set (players r)" if "q \<in> set ?ps" "socket q = None" for q
  proof -
    from set_update_first[OF that(1)] that(2) show ?thesis by auto
  qed
  have other: "\<exists>q \<in> set ?ps. name q = m \<and> socket q = None"
    if "\<exists>q \<in> set (players r). name q = m \<and> socket q = None" "m \<noteq> n" for m
  proof -
    from that obtain q where q: "q \<in> set (players r)" "name q = m" "socket q = None" by blast
    with that(2) have "q \<in> set ?ps" by (intro keep_update_first) auto
    with q show ?thesis by blast
  qed
  have R1: "records_ok r1"
    unfolding records_ok_def
  proof
    fix e assume "e \<in> set (disconnected_players r1)"
    then have e: "e \<in> set (disconnected_players r)" "fst e \<noteq> n"
      by (simp_all add: r1_def set_alist_delete)
    from records_okD[OF R e(1)] other[OF _ e(2)] e(2)
    show "(\<exists>p \<in> set (players r1). name p = fst e \<and> socket p = None) \<and>
      reconnect_count (snd e) = dict_get (reconnect_attempts r1) (fst e) 0 \<and>
      reconnect_count (snd e) < max_reconnect_attempts"
      by (simp add: r1_def dict_get_update)
  qed
  have dead1: "\<exists>p \<in> set (players r1). socket p = None" if "disconnected_players r1 \<noteq> []"
  proof -
    from that obtain e where "e \<in> set (disconnected_players r1)"
      by (cases "disconnected_players r1") auto
    from records_okD[OF R1 this] show ?thesis by blast
  qed
  have S1: "seats_ok (r1\<lparr>is_paused := is_paused r \<and> disconnected_players r1 \<noteq> []\<rparr>)"
    using S dead1 orig unfolding seats_ok_def r1_def by auto
  have R1': "records_ok (r1\<lparr>is_paused := b\<rparr>) = records_ok r1" for b
    by (rule records_ok_cong) simp_all
  show ?thesis
  proof (cases "disconnected_players r1 = []")
    case e: True
    then have S3: "seats_ok (r1\<lparr>is_paused := False\<rparr>)" using S1 by simp
    have I3: "Inv (r1\<lparr>is_paused := False\<rparr>)" using S3 R1 R1' by (simp add: Inv_def)
    have "snd (reconnect_player r now n s) =
        (if status r1 = Playing \<and> timer_callback r1
         then start_timer (r1\<lparr>is_paused := False\<rparr>) now else r1\<lparr>is_paused := False\<rparr>)"
      using True e by (auto simp: reconnect_player_def Let_def r1_def)
    then show ?thesis using I3 Inv_start_timer[OF I3] by simp
  next
    case ne: False
    have eq: "snd (reconnect_player r now n s) = r1"
      using True ne by (auto simp: reconnect_player_def Let_def r1_def)
    have "r1\<lparr>is_paused := is_paused r \<and> disconnected_players r1 \<noteq> []\<rparr> = r1"
      using ne by (simp add: r1_def)
    with S1 have "seats_ok r1" by simp
    then show ?thesis using R1 by (simp add: eq Inv_def)
  qed
qed

lemma Inv_handle_reconnect: "Inv r \<Longrightarrow> Inv (handle_reconnect r now s n)"
  by (simp add: handle_reconnect_def Inv_reconnect_player)

lemma Inv_remove_from_room: "Inv r \<Longrightarrow> Inv (remove_from_room r now s d)"
  by (simp add: remove_from_room_def Inv_remove_player)

lemma Inv_handle_join_room: "Inv r \<Longrightarrow> Inv (handle_join_room r now s n)"
  by (simp add: handle_join_room_def Let_def Inv_handle_reconnect Inv_remove_from_room
      Inv_add_player)

lemma Inv_forfeit_player:
  assumes I: "Inv r"
  shows "Inv (snd (forfeit_player r n c))"
proof -
  from I have S: "seats_ok r" and R: "records_ok r" by (simp_all add: Inv_def)
  let ?r' = "r\<lparr>disconnected_players := AList.delete n (disconnected_players r),
              turn_start_time := None, status := Finished, is_paused := False\<rparr>"
  have eq: "snd (forfeit_player r n c) = ?r'"
    by (simp add: forfeit_player_def Let_def stop_timer_def)
  have "seats_ok ?r'" using S unfolding seats_ok_def by simp
  moreover have "records_ok ?r'"
    unfolding records_ok_def
  proof
    fix e assume "e \<in> set (disconnected_players ?r')"
    then have "e \<in> set (disconnected_players r)" by (simp add: set_alist_delete)
    from records_okD[OF R this]
    show "(\<exists>p \<in> set (players ?r'). name p = fst e \<and> socket p = None) \<and>
      reconnect_count (snd e) = dict_get (reconnect_attempts ?r') (fst e) 0 \<and>
      reconnect_count (snd e) < max_reconnect_attempts" by simp
  qed
  ultimately show ?thesis by (simp add: eq Inv_def)
qed

lemma Inv_forfeit_all:
  "Inv r \<Longrightarrow> Inv (foldl (\<lambda>r' (n, c). snd (forfeit_player r' n c)) r xs)"
  by (induction xs arbitrary: r) (auto simp: Inv_forfeit_player)

lemma Inv_monitor_sweep: "Inv r \<Longrightarrow> Inv (monitor_sweep r now)"
  by (simp add: monitor_sweep_def Inv_forfeit_all)

lemma Inv_step: "Inv r \<Longrightarrow> Inv (step r e)"
proof -
  assume I: "Inv r"
  obtain now ev where e: "e = (now, ev)" by (cases e)
  show ?thesis
    unfolding e using I
    by (cases ev)
       (simp_all add: Inv_handle_join_room Inv_handle_ready Inv_handle_place_stone
          Inv_remove_from_room Inv_handle_timer_event Inv_handle_reconnect Inv_handle_surrender
          Inv_handle_rematch Inv_handle_rematch_response Inv_monitor_sweep)
qed

lemma Inv_run_from: "Inv r \<Longrightarrow> Inv (run r evs)"
  unfolding run_def by (induction evs arbitrary: r) (simp_all add: Inv_step)

lemma Inv_run: "Inv (run GameRoom_init evs)"
  by (rule Inv_run_from[OF Inv_init])

section \<open>Start of the game and turn timeout\<close>

text \<open>
  Claim C4. In a reachable room that is waiting and has two seats, a READY of a seated
  connection that makes both seats ready puts the room in play, with an all-empty board, black
  to move and the turn timer armed at this moment with 60 seconds left. The handler does
  not write the board or the turn: in a waiting room they are already empty and black.
\<close>

theorem ready_starts_game:
  assumes r: "r = run GameRoom_init evs"
    and w: "status r = Waiting" and l: "length (players r) = 2"
    and p: "get_player_by_socket r s = Some p"
    and a: "are_all_players_ready (snd (set_player_ready r s (\<not> ready p)))"
  shows "status (handle_ready r now s) = Playing \<and>
         grid (board (handle_ready r now s)) = empty_grid 15 \<and>
         (\<forall>row \<in> set (grid (board (handle_ready r now s))). \<forall>cl \<in> set row. cl = None) \<and>
         current_turn (handle_ready r now s) = ''black'' \<and>
         turn_start_time (handle_ready r now s) = Some now \<and>
         get_remaining_time (handle_ready r now s) now = 60 \<and>
         list_all ready (players (handle_ready r now s))"
proof -
  have I: "Inv r" unfolding r by (rule Inv_run)
  then have S: "seats_ok r" by (simp add: Inv_def)
  let ?ps = "update_first (\<lambda>q. socket q = Some s) (\<lambda>q. q\<lparr>ready := \<not> ready p\<rparr>) (players r)"
  let ?r1 = "r\<lparr>players := ?ps\<rparr>"
  from p have f: "find (\<lambda>p. socket p = Some s) (players r) = Some p"
    by (simp add: get_player_by_socket_def)
  then have r1: "snd (set_player_ready r s (\<not> ready p)) = ?r1"
    by (simp add: set_player_ready_def)
  from a have all: "list_all ready ?ps"
    unfolding r1 by (simp add: are_all_players_ready_def split: if_splits)
  have nodead: "\<not> (\<exists>q \<in> set (players r). socket q = None)"
  proof
    assume "\<exists>q \<in> set (players r). socket q = None"
    then obtain q where q: "q \<in> set (players r)" "socket q = None" by blast
    then have "q \<in> set ?ps" by (intro keep_update_first) auto
    with all have "ready q" by (simp add: list_all_iff)
    moreover from S w q have "\<not> ready q" by (simp add: seats_ok_def)
    ultimately show False by contradiction
  qed
  with S have np: "\<not> is_paused r" by (auto simp: seats_ok_def)
  have eq: "handle_ready r now s = ?r1\<lparr>status := Playing, turn_start_time := Some now, timer_callback := True\<rparr>"
    using p a np unfolding handle_ready_def r1 by (simp add: Let_def r1 start_timer_def)
  from S w have b: "grid (board r) = empty_grid 15" "current_turn r = ''black''"
    by (simp_all add: seats_ok_def)
  have e: "\<forall>row \<in> set (empty_grid 15). \<forall>cl \<in> set row. cl = None"
    by (auto simp: empty_grid_def)
  show ?thesis
    unfolding eq using b e all
    by (simp add: get_remaining_time_def turn_time_limit_def)
qed


text \<open>The second READY of a fresh room with two players.\<close>

theorem ready_starts_game_witness:
  "status (run GameRoom_init events_one_ready) = Waiting \<and>
   length (players (run GameRoom_init events_one_ready)) = 2 \<and>
   status (handle_ready (run GameRoom_init events_one_ready) 3 2) = Playing \<and>
   grid (board (handle_ready (run GameRoom_init events_one_ready) 3 2)) = empty_grid 15 \<and>
   current_turn (handle_ready (run GameRoom_init events_one_ready) 3 2) = ''black'' \<and>
   turn_start_time (handle_ready (run GameRoom_init events_one_ready) 3 2) = Some 3 \<and>
   get_remaining_time (handle_ready (run GameRoom_init events_one_ready) 3 2) 3 = 60"
proof -
  let ?r = "run GameRoom_init events_one_ready"
  let ?p = "\<lparr>socket = Some 2, name = ''bob'', color = ''white'', ready = False\<rparr>"
  have w: "status ?r = Waiting" by code_simp
  have l: "length (players ?r) = 2" by code_simp
  have p: "get_player_by_socket ?r 2 = Some ?p" by code_simp
  have a: "are_all_players_ready (snd (set_player_ready ?r 2 (\<not> ready ?p)))" by code_simp
  from ready_starts_game[OF refl w l p a, of 3] w l show ?thesis by simp
qed

text \<open>
  Claim C5. In a reachable room in play whose turn time is used up, the timeout handler gives
  the turn to the other colour and arms the timer again with 60 seconds, and leaves the
  board, the seats and the status as they are; in a room that is not in play it changes
  nothing.
\<close>

theorem timeout_swaps_turn:
  assumes r: "r = run GameRoom_init evs"
  shows "(status r = Playing \<and> timer_expired r now \<longrightarrow>
            (current_turn r = ''black'' \<or> current_turn r = ''white'') \<and>
            (current_turn r = ''black'' \<longrightarrow> current_turn (handle_timer_event r now Timeout) = ''white'') \<and>
            (current_turn r = ''white'' \<longrightarrow> current_turn (handle_timer_event r now Timeout) = ''black'') \<and>
            turn_start_time (handle_timer_event r now Timeout) = Some now \<and>
            get_remaining_time (handle_timer_event r now Timeout) now = 60 \<and>
            board (handle_timer_event r now Timeout) = board r \<and>
            status (handle_timer_event r now Timeout) = Playing \<and>
            players (handle_timer_event r now Timeout) = players r \<and>
            step r (now, TimeUp) = handle_timer_event r now Timeout) \<and>
         (status r \<noteq> Playing \<longrightarrow> handle_timer_event r now Timeout = r \<and> step r (now, TimeUp) = r)"
proof -
  have I: "Inv r" unfolding r by (rule Inv_run)
  then have S: "seats_ok r" by (simp add: Inv_def)
  have np: "\<not> is_paused r" if "timer_expired r now"
    using that S by (auto simp: timer_expired_def seats_ok_def split: option.splits)
  from S have t: "current_turn r = ''black'' \<or> current_turn r = ''white''"
    by (simp add: seats_ok_def)
  show ?thesis
    using np t
    by (auto simp: handle_timer_event_def start_timer_def switch_turn_def
        get_remaining_time_def turn_time_limit_def)
qed

text \<open>A timeout on white's turn in a running game, and a timeout in a waiting room.\<close>

theorem timeout_swaps_turn_witness:
  "status (run GameRoom_init events_in_play) = Playing \<and>
   timer_expired (run GameRoom_init events_in_play) 70 \<and>
   current_turn (run GameRoom_init events_in_play) = ''white'' \<and>
   current_turn (handle_timer_event (run GameRoom_init events_in_play) 70 Timeout) = ''black'' \<and>
   turn_start_time (handle_timer_event (run GameRoom_init events_in_play) 70 Timeout) = Some 70 \<and>
   board (handle_timer_event (run GameRoom_init events_in_play) 70 Timeout)
     = board (run GameRoom_init events_in_play) \<and>
   status (run GameRoom_init events_one_ready) \<noteq> Playing \<and>
   handle_timer_event (run GameRoom_init events_one_ready) 70 Timeout
     = run GameRoom_init events_one_ready"
proof -
  let ?r = "run GameRoom_init events_in_play"
  have s: "status ?r = Playing" by code_simp
  have e: "timer_expired ?r 70" by code_simp
  have c: "current_turn ?r = ''white''" by code_simp
  have n: "status (run GameRoom_init events_one_ready) \<noteq> Playing" by code_simp
  from timeout_swaps_turn[OF refl, of events_in_play 70] s e c
    timeout_swaps_turn[OF refl, of events_one_ready 70] n
  show ?thesis by simp
qed

section \<open>Reconnecting\<close>

lemma first_rebound:
  "\<exists>q \<in> set xs. name q = n \<Longrightarrow>
   \<exists>q \<in> set (update_first (\<lambda>q. name q = n) (\<lambda>q. q\<lparr>socket := Some s\<rparr>) xs).
      name q = n \<and> socket q = Some s"
  by (induction xs) auto

lemma map_of_delete_self: "map_of (AList.delete k al) k = None"
  by (simp add: delete_conv')

text \<open>
  When a reconnect is accepted: in a reachable room, exactly when the name has a
  disconnection record that is at most 180 seconds old and whose reconnect count is below 2;
  a name whose reconnect count has reached 2 is rejected. On acceptance the first seat of
  that name gets the new connection and the record is removed; on rejection the room is
  unchanged.
\<close>

lemma reconnect_accepted_iff:
  assumes r: "r = run GameRoom_init evs"
  shows "(fst (reconnect_player r now n s) \<longleftrightarrow>
            (\<exists>d. map_of (disconnected_players r) n = Some d \<and>
                 now - disconnect_time d \<le> 180 \<and> reconnect_count d < 2)) \<and>
         (can_reconnect r now n \<longleftrightarrow> fst (reconnect_player r now n s)) \<and>
         (2 \<le> dict_get (reconnect_attempts r) n 0 \<longrightarrow> \<not> fst (reconnect_player r now n s)) \<and>
         (fst (reconnect_player r now n s) \<longrightarrow>
            players (snd (reconnect_player r now n s))
              = update_first (\<lambda>q. name q = n) (\<lambda>q. q\<lparr>socket := Some s\<rparr>) (players r) \<and>
            (\<exists>q \<in> set (players (snd (reconnect_player r now n s))). name q = n \<and> socket q = Some s) \<and>
            map_of (disconnected_players (snd (reconnect_player r now n s))) n = None \<and>
            disconnected_players (snd (reconnect_player r now n s))
              = AList.delete n (disconnected_players r)) \<and>
         (\<not> fst (reconnect_player r now n s) \<longrightarrow> snd (reconnect_player r now n s) = r)"
proof -
  have I: "Inv r" unfolding r by (rule Inv_run)
  then have R: "records_ok r" by (simp add: Inv_def)
  have rec: "reconnect_count d = dict_get (reconnect_attempts r) n 0 \<and>
             reconnect_count d < max_reconnect_attempts \<and>
             (\<exists>q \<in> set (players r). name q = n)"
    if "map_of (disconnected_players r) n = Some d" for d
  proof -
    from that have "(n, d) \<in> set (disconnected_players r)" by (rule map_of_SomeD)
    from records_okD[OF R this] show ?thesis by auto
  qed
  have can: "can_reconnect r now n \<longleftrightarrow>
      (\<exists>d. map_of (disconnected_players r) n = Some d \<and>
           now - disconnect_time d \<le> 180 \<and> reconnect_count d < 2)"
    using rec by (auto simp: can_reconnect_def reconnect_timeout_def max_reconnect_attempts_def
        split: option.splits)
  have acc: "fst (reconnect_player r now n s) \<longleftrightarrow> can_reconnect r now n"
    by (auto simp: reconnect_player_def Let_def can_reconnect_def split: option.splits)
  have third: "\<not> can_reconnect r now n" if "2 \<le> dict_get (reconnect_attempts r) n 0"
    using that by (auto simp: can_reconnect_def max_reconnect_attempts_def split: option.splits)
  have rej: "snd (reconnect_player r now n s) = r" if "\<not> can_reconnect r now n"
    using that by (simp add: reconnect_player_def)
  have eff: "players (snd (reconnect_player r now n s))
              = update_first (\<lambda>q. name q = n) (\<lambda>q. q\<lparr>socket := Some s\<rparr>) (players r) \<and>
            disconnected_players (snd (reconnect_player r now n s))
              = AList.delete n (disconnected_players r)"
    if "can_reconnect r now n"
    using that
    by (auto simp: reconnect_player_def Let_def can_reconnect_def start_timer_def
        split: option.splits)
  have seat: "\<exists>q \<in> set (update_first (\<lambda>q. name q = n) (\<lambda>q. q\<lparr>socket := Some s\<rparr>) (players r)).
      name q = n \<and> socket q = Some s" if "can_reconnect r now n"
  proof -
    from that obtain d where "map_of (disconnected_players r) n = Some d"
      by (auto simp: can_reconnect_def split: option.splits)
    from rec[OF this] show ?thesis by (intro first_rebound) blast
  qed
  show ?thesis
    unfolding acc using can third rej eff seat by (simp add: map_of_delete_self)
qed

text \<open>
  A reconnect exactly 180 seconds after the loss is accepted, one half a second later is
  rejected, a name without a record is rejected, and so is the third attempt.
\<close>

lemma reconnect_accepted_iff_example:
  "fst (reconnect_player (run GameRoom_init events_disconnected) 190 ''alice'' 5) \<and>
   map socket (players (snd (reconnect_player (run GameRoom_init events_disconnected) 190 ''alice'' 5)))
     = [Some 5, Some 2] \<and>
   disconnected_players (snd (reconnect_player (run GameRoom_init events_disconnected) 190 ''alice'' 5)) = [] \<and>
   \<not> fst (reconnect_player (run GameRoom_init events_disconnected) 190.5 ''alice'' 5) \<and>
   \<not> fst (reconnect_player (run GameRoom_init events_disconnected) 20 ''bob'' 5) \<and>
   \<not> fst (reconnect_player room_third_disconnect 15 ''alice'' 5)"
proof -
  let ?r = "run GameRoom_init events_disconnected"
  let ?p = "\<lparr>socket = Some 1, name = ''alice'', color = ''black'', ready = True\<rparr>"
  let ?d = "\<lparr>disconnect_time = 10, player_data = ?p, last_color = ''black'', reconnect_count = 0\<rparr>"
  have m: "map_of (disconnected_players ?r) ''alice'' = Some ?d" by code_simp
  have b: "map_of (disconnected_players ?r) ''bob'' = None" by code_simp
  have pl: "map socket (update_first (\<lambda>q. name q = ''alice'') (\<lambda>q. q\<lparr>socket := Some 5\<rparr>) (players ?r))
      = [Some 5, Some 2]" by code_simp
  have dl: "AList.delete ''alice'' (disconnected_players ?r) = []" by code_simp
  have t: "2 \<le> dict_get (reconnect_attempts room_third_disconnect) ''alice'' 0" by code_simp
  have a: "fst (reconnect_player ?r 190 ''alice'' 5)"
    using reconnect_accepted_iff[OF refl, of events_disconnected 190 "''alice''" 5] m by simp
  have "\<not> fst (reconnect_player ?r 190.5 ''alice'' 5)"
    using reconnect_accepted_iff[OF refl, of events_disconnected "190.5" "''alice''" 5] m by simp
  moreover have "\<not> fst (reconnect_player ?r 20 ''bob'' 5)"
    using reconnect_accepted_iff[OF refl, of events_disconnected 20 "''bob''" 5] b by simp
  moreover have "\<not> fst (reconnect_player room_third_disconnect 15 ''alice'' 5)"
    using reconnect_accepted_iff[OF room_third_disconnect_def, of 15 "''alice''" 5] t by blast
  moreover have "map socket (players (snd (reconnect_player ?r 190 ''alice'' 5))) = [Some 5, Some 2] \<and>
    disconnected_players (snd (reconnect_player ?r 190 ''alice'' 5)) = []"
    using reconnect_accepted_iff[OF refl, of events_disconnected 190 "''alice''" 5] a pl dl by simp
  ultimately show ?thesis using a by simp
qed

text \<open>
  Claim C6, evaluated where the code differs: with two seats of the same name, of which the
  second has lost its connection, the reconnect under that name is accepted, but the new
  connection is given to the first seat, whose own connection was alive; the seat that lost
  its connection keeps none, while the record is removed and the room is no longer paused.
\<close>

theorem reconnect_rebinds_live_seat:
  "map name (players room_same_name_lost) = [''alice'', ''alice''] \<and>
   map socket (players room_same_name_lost) = [Some 1, None] \<and>
   map fst (disconnected_players room_same_name_lost) = [''alice''] \<and>
   is_paused room_same_name_lost \<and>
   fst (reconnect_player room_same_name_lost 20 ''alice'' 3) \<and>
   map socket (players (snd (reconnect_player room_same_name_lost 20 ''alice'' 3)))
     = [Some 3, None] \<and>
   disconnected_players (snd (reconnect_player room_same_name_lost 20 ''alice'' 3)) = [] \<and>
   \<not> is_paused (snd (reconnect_player room_same_name_lost 20 ''alice'' 3)) \<and>
   step room_same_name_lost (20, Reconnect 3 ''alice'')
     = snd (reconnect_player room_same_name_lost 20 ''alice'' 3)"
  by code_simp

section \<open>Stone counts in play\<close>

lemma count_row_update:
  "j < length row \<Longrightarrow> row ! j = None \<Longrightarrow>
   length (filter (\<lambda>cl. cl = Some c) (row[j := Some c'])) =
   length (filter (\<lambda>cl. cl = Some c) row) + (if c' = c then 1 else 0)"
proof (induction row arbitrary: j)
  case Nil
  then show ?case by simp
next
  case (Cons a row)
  then show ?case by (cases j) auto
qed

lemma count_grid_update:
  "i < length g \<Longrightarrow> j < length (g ! i) \<Longrightarrow> g ! i ! j = None \<Longrightarrow>
   length (filter (\<lambda>cl. cl = Some c) (concat (g[i := (g ! i)[j := Some c']]))) =
   length (filter (\<lambda>cl. cl = Some c) (concat g)) + (if c' = c then 1 else 0)"
proof (induction g arbitrary: i)
  case Nil
  then show ?case by simp
next
  case (Cons row g)
  show ?case
  proof (cases i)
    case 0
    with Cons.prems count_row_update[of j row c c'] show ?thesis by simp
  next
    case (Suc k)
    with Cons.prems Cons.IH[of k] show ?thesis by simp
  qed
qed

lemma count_empty_grid: "grid b = empty_grid n \<Longrightarrow> count_color b c = 0"
  by (simp add: count_color_def empty_grid_def filter_empty_conv)

lemma place_stone_success:
  assumes w: "wf_board b" and ok: "place_stone b x y t = (Inr ok, b')"
  shows "(t = ''black'' \<or> t = ''white'') \<and> is_valid_position b' x y \<and>
         cell_at b' x y = Some t \<and>
         count_color b' c = count_color b c + (if t = c then 1 else 0)"
proof -
  from ok have v: "is_valid_position b x y" and e: "cell_at b x y = None"
    and t: "t = ''black'' \<or> t = ''white''"
    and b': "b' = b\<lparr>grid := (grid b)[nat x := (grid b ! nat x)[nat y := Some t]]\<rparr>"
    by (auto simp: place_stone_def is_empty_def split: if_splits)
  from w v have lx: "nat x < length (grid b)"
    by (auto simp: wf_board_def is_valid_position_def)
  then have "grid b ! nat x \<in> set (grid b)" by simp
  with w v have ly: "nat y < length (grid b ! nat x)"
    by (auto simp: wf_board_def is_valid_position_def)
  have c: "cell_at b' x y = Some t"
    using lx ly by (simp add: b' cell_at_def)
  have n: "count_color b' c = count_color b c + (if t = c then 1 else 0)"
    unfolding count_color_def b' using count_grid_update[OF lx ly, of c t] e
    by (simp add: cell_at_def)
  from v have "is_valid_position b' x y" by (simp add: b' is_valid_position_def)
  with t c n show ?thesis by simp
qed

lemma balanced_keep:
  assumes "balanced r" "board r' = board r"
    "status r' = Playing \<longrightarrow> status r = Playing \<and> current_turn r' = current_turn r"
  shows "balanced r'"
  using assms unfolding balanced_def by auto

lemma balanced_empty:
  assumes "grid (board r') = empty_grid n" "status r' = Playing \<longrightarrow> current_turn r' = ''black''"
  shows "balanced r'"
  using assms unfolding balanced_def by (auto simp: count_empty_grid)

lemma balanced_start_timer: "balanced (start_timer r now) = balanced r"
  by (simp add: balanced_def start_timer_def)

lemma balanced_stop_timer: "balanced (stop_timer r) = balanced r"
  by (simp add: balanced_def stop_timer_def)

lemma balanced_remove_player:
  assumes "balanced r"
  shows "balanced (snd (remove_player r now s dis))"
proof (cases "find (\<lambda>p. socket p = Some s) (players r)")
  case None
  then show ?thesis using assms by (simp add: remove_player_def)
next
  case (Some p)
  show ?thesis
  proof (cases "dis \<and> status r = Playing")
    case True
    show ?thesis
      by (rule balanced_keep[OF assms])
         (use Some True in \<open>auto simp: remove_player_def Let_def stop_timer_def\<close>)
  next
    case False
    show ?thesis
    proof (cases "length (remove1 p (players r)) = 1")
      case one: True
      show ?thesis
        by (rule balanced_empty[where n = "bsize (board r)"])
           (use Some False one in \<open>auto simp: remove_player_def Let_def stop_timer_def reset_def\<close>)
    next
      case other: False
      show ?thesis
        by (rule balanced_keep[OF assms])
           (use Some False other in \<open>auto simp: remove_player_def Let_def\<close>)
    qed
  qed
qed

lemma balanced_reconnect_player:
  assumes "balanced r"
  shows "balanced (snd (reconnect_player r now n s))"
  by (rule balanced_keep[OF assms])
     (auto simp: reconnect_player_def Let_def start_timer_def)

lemma balanced_add_player:
  assumes "balanced r"
  shows "balanced (snd (add_player r s n))"
  by (rule balanced_keep[OF assms]) (auto simp: add_player_def Let_def)

lemma balanced_handle_join_room:
  "balanced r \<Longrightarrow> balanced (handle_join_room r now s n)"
  by (simp add: handle_join_room_def Let_def handle_reconnect_def remove_from_room_def
      balanced_remove_player balanced_reconnect_player balanced_add_player)

lemma balanced_handle_ready:
  assumes b: "balanced r" and I: "Inv r"
    and c: "\<not> (status r = Finished \<and> status (handle_ready r now s) = Playing)"
  shows "balanced (handle_ready r now s)"
proof (cases "status r")
  case Waiting
  with I have "grid (board r) = empty_grid 15" "current_turn r = ''black''"
    by (simp_all add: Inv_def seats_ok_def)
  then show ?thesis
    by (intro balanced_empty[where n = 15])
       (auto simp: handle_ready_def Let_def set_player_ready_def start_timer_def
          get_player_by_socket_def split: option.splits)
next
  case Playing
  show ?thesis
    by (rule balanced_keep[OF b])
       (use Playing in \<open>auto simp: handle_ready_def Let_def set_player_ready_def start_timer_def
          get_player_by_socket_def split: option.splits\<close>)
next
  case Finished
  with c have n: "status (handle_ready r now s) \<noteq> Playing" by simp
  have "board (handle_ready r now s) = board r"
    by (auto simp: handle_ready_def Let_def set_player_ready_def start_timer_def
          get_player_by_socket_def split: option.splits)
  with n show ?thesis by (intro balanced_keep[OF b]) simp_all
qed

lemma balanced_handle_place_stone:
  assumes b: "balanced r" and I: "Inv r"
  shows "balanced (handle_place_stone r now s x y)"
proof (cases "get_player_by_socket r s")
  case None
  then show ?thesis using b by (simp add: handle_place_stone_def)
next
  case (Some p)
  show ?thesis
  proof (cases "status r = Playing \<and> color p = current_turn r")
    case False
    then show ?thesis using b Some by (auto simp: handle_place_stone_def)
  next
    case True
    obtain res b' where ps: "place_stone (board r) x y (color p) = (res, b')"
      by (cases "place_stone (board r) x y (color p)")
    show ?thesis
    proof (cases res)
      case (Inl e)
      then show ?thesis using b Some True ps by (simp add: handle_place_stone_def)
    next
      case (Inr ok)
      let ?t = "current_turn r"
      from I have w: "wf_board (board r)" by (simp add: Inv_def seats_ok_def)
      from ps Inr True have ps': "place_stone (board r) x y ?t = (Inr ok, b')" by simp
      note s = place_stone_success[OF w ps']
      from place_stone_wf[OF w, of x y ?t] ps' have w': "wf_board b'" by simp
      from s have v: "is_valid_position b' x y" and c: "cell_at b' x y = Some ?t" by simp_all
      have cw: "check_winner b' x y = Some (Inr (if spec_winning_run b' ?t x y then Some ?t else None))"
        using check_winner_returns[OF w' v] c by simp
      from s have ne: "?t \<noteq> []" by auto
      from b True have bal:
        "(?t = ''black'' \<and> count_color (board r) ''black'' = count_color (board r) ''white'') \<or>
         (?t = ''white'' \<and> count_color (board r) ''black'' = count_color (board r) ''white'' + 1)"
        by (simp add: balanced_def)
      have nB: "count_color b' ''black'' = count_color (board r) ''black'' + (if ?t = ''black'' then 1 else 0)"
        and nW: "count_color b' ''white'' = count_color (board r) ''white'' + (if ?t = ''white'' then 1 else 0)"
        using place_stone_success[OF w ps', of "''black''"] place_stone_success[OF w ps', of "''white''"]
        by simp_all
      show ?thesis
      proof (cases "spec_winning_run b' ?t x y")
        case win: True
        have eq: "handle_place_stone r now s x y = (stop_timer (r\<lparr>board := b'\<rparr>))\<lparr>status := Finished\<rparr>"
          using Some True ps Inr cw win ne by (simp add: handle_place_stone_def Let_def)
        show ?thesis unfolding eq balanced_def using bal nB nW
          by (auto simp: stop_timer_def)
      next
        case nowin: False
        have eq: "handle_place_stone r now s x y
            = start_timer (switch_turn (stop_timer (r\<lparr>board := b'\<rparr>))) now"
          using Some True ps Inr cw nowin by (simp add: handle_place_stone_def Let_def)
        have "balanced (switch_turn (stop_timer (r\<lparr>board := b'\<rparr>)))"
          unfolding balanced_def using bal nB nW True
          by (auto simp: stop_timer_def switch_turn_def)
        then show ?thesis unfolding eq by (simp add: balanced_start_timer)
      qed
    qed
  qed
qed

lemma balanced_handle_timer_event_idle:
  assumes "balanced r" "\<not> (timer_expired r now \<and> status r = Playing)"
  shows "balanced (step r (now, TimeUp))"
  using assms by (auto simp: handle_timer_event_def)

lemma balanced_handle_surrender: "balanced r \<Longrightarrow> balanced (handle_surrender r s)"
  by (erule balanced_keep) (auto simp: handle_surrender_def stop_timer_def split: option.splits)

lemma balanced_start_rematch: "balanced (start_timer (start_rematch r) now)"
  unfolding balanced_start_timer
  by (rule balanced_empty[where n = "bsize (board r)"]) (simp_all add: start_rematch_def reset_def)

lemma balanced_requests: "balanced (r\<lparr>rematch_requests := q\<rparr>) = balanced r"
  by (simp add: balanced_def)

lemma balanced_handle_rematch: "balanced r \<Longrightarrow> balanced (handle_rematch r now s)"
  by (auto simp: handle_rematch_def request_rematch_def balanced_start_rematch balanced_requests
      split: option.splits)

lemma balanced_handle_rematch_response:
  "balanced r \<Longrightarrow> balanced (handle_rematch_response r now s a)"
  by (auto simp: handle_rematch_response_def request_rematch_def Let_def balanced_start_rematch
      balanced_requests split: option.splits)

lemma balanced_forfeit_player: "balanced r \<Longrightarrow> balanced (snd (forfeit_player r n c))"
  by (erule balanced_keep) (auto simp: forfeit_player_def Let_def stop_timer_def)

lemma balanced_forfeit_all:
  "balanced r \<Longrightarrow> balanced (foldl (\<lambda>r' (n, c). snd (forfeit_player r' n c)) r xs)"
  by (induction xs arbitrary: r) (auto simp: balanced_forfeit_player)

lemma balanced_step:
  assumes "balanced r" "Inv r" "calm r [(now, ev)]"
  shows "balanced (step r (now, ev))"
proof (cases ev)
  case (Ready s)
  with assms show ?thesis by (auto intro!: balanced_handle_ready)
next
  case TimeUp
  with assms show ?thesis by (auto simp del: step.simps intro!: balanced_handle_timer_event_idle)
qed (use assms in \<open>simp_all add: balanced_handle_join_room balanced_handle_place_stone
      remove_from_room_def balanced_remove_player handle_reconnect_def balanced_reconnect_player
      balanced_handle_surrender balanced_handle_rematch balanced_handle_rematch_response
      monitor_sweep_def balanced_forfeit_all\<close>)

lemma balanced_run:
  "balanced r \<Longrightarrow> Inv r \<Longrightarrow> calm r evs \<Longrightarrow> balanced (run r evs)"
proof (induction evs arbitrary: r)
  case Nil
  then show ?case by (simp add: run_def)
next
  case (Cons e evs)
  obtain now ev where e: "e = (now, ev)" by (cases e)
  from Cons.prems have c1: "calm r [(now, ev)]" and c2: "calm (step r (now, ev)) evs"
    by (simp_all add: e)
  have "balanced (step r (now, ev))" by (rule balanced_step[OF Cons.prems(1,2) c1])
  moreover have "Inv (step r (now, ev))" by (rule Inv_step[OF Cons.prems(2)])
  ultimately have "balanced (run (step r (now, ev)) evs)" using c2 by (rule Cons.IH)
  then show ?case by (simp add: run_def e)
qed

lemma balanced_init: "balanced GameRoom_init"
  by (rule balanced_empty[where n = 15]) (simp_all add: GameRoom_init_def GomokuBoard_init_def)

text \<open>
  Claim C8 as amended. In every room reached from a fresh one by a sequence of events in which
  no turn timeout fires in play and no READY takes a finished room back into play, a room in
  play has either black to move and as many black stones as white ones, or white to move and
  one black stone more.
\<close>

theorem stone_counts_calm:
  assumes "calm GameRoom_init evs" and "status (run GameRoom_init evs) = Playing"
  shows "(current_turn (run GameRoom_init evs) = ''black'' \<and>
            count_color (board (run GameRoom_init evs)) ''black''
              = count_color (board (run GameRoom_init evs)) ''white'') \<or>
         (current_turn (run GameRoom_init evs) = ''white'' \<and>
            count_color (board (run GameRoom_init evs)) ''black''
              = count_color (board (run GameRoom_init evs)) ''white'' + 1)"
proof -
  have "balanced (run GameRoom_init evs)"
    by (rule balanced_run[OF balanced_init Inv_init assms(1)])
  with assms(2) show ?thesis by (simp add: balanced_def)
qed

text \<open>After black, white and black have played in a game without timeouts.\<close>

theorem stone_counts_calm_witness:
  "calm GameRoom_init events_four_stones \<and>
   status (run GameRoom_init events_four_stones) = Playing \<and>
   current_turn (run GameRoom_init events_four_stones) = ''white'' \<and>
   count_color (board (run GameRoom_init events_four_stones)) ''black'' = 2 \<and>
   count_color (board (run GameRoom_init events_four_stones)) ''white'' = 1"
proof -
  have c: "calm GameRoom_init events_four_stones" by code_simp
  have s: "status (run GameRoom_init events_four_stones) = Playing" by code_simp
  have t: "current_turn (run GameRoom_init events_four_stones) = ''white''" by code_simp
  have w: "count_color (board (run GameRoom_init events_four_stones)) ''white'' = 1" by code_simp
  from stone_counts_calm[OF c s] t w show ?thesis using c s by simp
qed

section \<open>Round trip of the wire protocol\<close>

lemma is_space_newline: "is_space newline"
  by (simp add: is_space_def newline_def)

lemma strip_line:
  assumes "s \<noteq> []" "\<not> is_space (hd s)" "\<not> is_space (last s)"
  shows "strip s = s"
proof -
  from assms have a: "dropWhile is_space s = s" by (cases s) auto
  from assms have "rev s \<noteq> []" "\<not> is_space (hd (rev s))" by (simp_all add: hd_rev)
  then have "dropWhile is_space (rev s) = rev s" by (cases "rev s") auto
  with a show ?thesis by (simp add: strip_def)
qed

lemma strip_line_newline:
  assumes "s \<noteq> []" "\<not> is_space (hd s)" "\<not> is_space (last s)"
  shows "strip (s @ [newline]) = s"
proof -
  from assms have a: "dropWhile is_space (s @ [newline]) = s @ [newline]" by (cases s) auto
  from assms have "rev s \<noteq> []" "\<not> is_space (hd (rev s))" by (simp_all add: hd_rev)
  then have "dropWhile is_space (rev s) = rev s" by (cases "rev s") auto
  with a show ?thesis by (simp add: strip_def is_space_newline)
qed

lemma split_lines_nonempty: "split_lines s \<noteq> []"
  by (induction s) (auto split: list.splits)

lemma split_lines_single: "newline \<notin> set s \<Longrightarrow> split_lines s = [s]"
  by (induction s) auto

lemma split_lines_append:
  "newline \<notin> set s \<Longrightarrow> split_lines (s @ newline # t) = s # split_lines t"
  by (induction s) auto

lemma concat_joined:
  "ls \<noteq> [] \<Longrightarrow> concat (map (\<lambda>l. l @ [newline]) ls) = joined ls @ [newline]"
  by (induction ls rule: joined.induct) auto

lemma split_joined:
  "ls \<noteq> [] \<Longrightarrow> \<forall>l \<in> set ls. newline \<notin> set l \<Longrightarrow> split_lines (joined ls) = ls"
  by (induction ls rule: joined.induct) (auto simp: split_lines_single split_lines_append)

lemma joined_ends:
  "ls \<noteq> [] \<Longrightarrow> \<forall>l \<in> set ls. l \<noteq> [] \<Longrightarrow>
   joined ls \<noteq> [] \<and> hd (joined ls) = hd (hd ls) \<and> last (joined ls) = last (last ls)"
  by (induction ls rule: joined.induct) auto

lemma map_filter_all_Some:
  "\<forall>x \<in> set xs. f (g x) = Some (h x) \<Longrightarrow> List.map_filter f (map g xs) = map h xs"
  by (induction xs) (simp_all add: map_filter_simps)

lemma parse_lines:
  assumes c: "\<forall>v \<in> set vs. json_contract dumps loads fr v"
  shows "parse_messages loads (concat (map (\<lambda>v. dumps v @ [newline]) vs)) = map (json_image fr) vs"
proof (cases "vs = []")
  case True
  then show ?thesis by (simp add: parse_messages_def strip_def map_filter_simps)
next
  case False
  let ?ls = "map dumps vs"
  from False have ne: "?ls \<noteq> []" by simp
  from c have nl: "\<forall>l \<in> set ?ls. newline \<notin> set l" and nonempty: "\<forall>l \<in> set ?ls. l \<noteq> []"
    by (auto simp: json_contract_def)
  from c False have h: "\<not> is_space (hd (hd ?ls))" and l: "\<not> is_space (last (last ?ls))"
    by (auto simp: json_contract_def hd_map last_map)
  from joined_ends[OF ne nonempty] h l
  have j: "joined ?ls \<noteq> []" "\<not> is_space (hd (joined ?ls))" "\<not> is_space (last (joined ?ls))"
    by simp_all
  have "concat (map (\<lambda>v. dumps v @ [newline]) vs) = concat (map (\<lambda>l. l @ [newline]) ?ls)"
    by (simp add: comp_def)
  also have "\<dots> = joined ?ls @ [newline]" by (rule concat_joined[OF ne])
  finally have "strip (concat (map (\<lambda>v. dumps v @ [newline]) vs)) = joined ?ls"
    using strip_line_newline[OF j] by simp
  then have "split_lines (strip (concat (map (\<lambda>v. dumps v @ [newline]) vs))) = ?ls"
    using split_joined[OF ne nl] by simp
  moreover have "\<forall>v \<in> set vs.
      (\<lambda>line. if strip line \<noteq> [] then loads line else None) (dumps v) = Some (json_image fr v)"
  proof
    fix v assume "v \<in> set vs"
    with c have k: "json_contract dumps loads fr v" by blast
    then have "strip (dumps v) = dumps v" by (intro strip_line) (simp_all add: json_contract_def)
    with k show "(if strip (dumps v) \<noteq> [] then loads (dumps v) else None) = Some (json_image fr v)"
      by (simp add: json_contract_def)
  qed
  ultimately show ?thesis
    unfolding parse_messages_def
    using map_filter_all_Some[where h = "json_image fr" and g = dumps and xs = vs]
    by simp
qed

lemma update_fresh: "k \<notin> fst ` set al \<Longrightarrow> AList.update k v al = al @ [(k, v)]"
  by (induction al) auto

lemma foldl_update_distinct:
  "distinct (map fst items) \<Longrightarrow> fst ` set d \<inter> fst ` set items = {} \<Longrightarrow>
   foldl (\<lambda>d kv. AList.update (fst kv) (snd kv) d) d items = d @ items"
proof (induction items arbitrary: d)
  case Nil
  then show ?case by simp
next
  case (Cons kv items)
  from Cons.prems have f: "fst kv \<notin> fst ` set d" by auto
  have u: "AList.update (fst kv) (snd kv) d = d @ [kv]"
    using update_fresh[OF f, of "snd kv"] by simp
  from Cons.prems have "distinct (map fst items)"
    and "fst ` set (d @ [kv]) \<inter> fst ` set items = {}" by auto
  from Cons.IH[OF this] show ?case by (simp add: u)
qed

lemma dict_of_items_distinct: "distinct (map fst items) \<Longrightarrow> dict_of_items items = items"
  using foldl_update_distinct[of items "[]"] by (simp add: dict_of_items_def)

lemma is_str_key_text: "is_str_key k \<Longrightarrow> KStr (key_text fr k) = k"
  by (cases k) simp_all

lemma json_native_image: "json_native v \<Longrightarrow> json_image fr v = v"
proof (induction v)
  case (PList xs)
  then show ?case by (simp add: list_all_iff map_idI)
next
  case (PDict items)
  have "map_prod (\<lambda>k. KStr (key_text fr k)) (json_image fr) kv = kv" if "kv \<in> set items" for kv
  proof -
    obtain k w where kv: "kv = (k, w)" by (cases kv)
    with that PDict.prems have s: "is_str_key k" and n: "json_native w"
      by (auto simp: list_all_iff)
    from that kv have "w \<in> Basic_BNFs.snds kv" by simp
    from PDict.IH[OF that this n] s show ?thesis by (simp add: kv is_str_key_text)
  qed
  then have "map (map_prod (\<lambda>k. KStr (key_text fr k)) (json_image fr)) items = items"
    by (simp add: map_idI)
  with PDict.prems show ?case by (simp add: dict_of_items_distinct)
qed simp_all

lemma json_image_message:
  "json_image fr (message ts t d) =
     PDict [(KStr ''type'', PStr t),
            (KStr ''data'', json_image fr (PDict (data_or_empty d))),
            (KStr ''timestamp'', PStr ts)]"
  by (simp add: message_def dict_of_items_def)

text \<open>
  Claim C10 as amended. For messages on which \<open>dumps\<close> and \<open>loads\<close> do what the JSON
  library documents, parsing the concatenated output of \<^verbatim>\<open>create_message\<close> gives one message
  for each, in order; parsing the output for one message gives exactly one message, whose
  \<^verbatim>\<open>type\<close> is the given type and whose \<^verbatim>\<open>data\<close> is the JSON image of the given dictionary (the
  empty one when none or an empty one was given): keys written as strings, tuples as lists.
  Where the dictionary holds only what JSON holds as it is, the \<^verbatim>\<open>data\<close> is the dictionary
  itself and the whole message comes back unchanged.
\<close>

theorem protocol_round_trip:
  assumes "\<forall>(ts, t, d) \<in> set ms. json_contract dumps loads fr (message ts t d)"
  shows "parse_messages loads (concat (map (\<lambda>(ts, t, d). create_message dumps ts t d) ms))
           = map (\<lambda>(ts, t, d). json_image fr (message ts t d)) ms \<and>
         (\<forall>(ts, t, d) \<in> set ms.
            parse_messages loads (create_message dumps ts t d) = [json_image fr (message ts t d)] \<and>
            field (json_image fr (message ts t d)) ''type'' = Some (PStr t) \<and>
            field (json_image fr (message ts t d)) ''data''
              = Some (json_image fr (PDict (data_or_empty d))) \<and>
            data_or_empty d = (case d of None \<Rightarrow> [] | Some items \<Rightarrow> items) \<and>
            (json_native (PDict (data_or_empty d)) \<longrightarrow>
               field (json_image fr (message ts t d)) ''data'' = Some (PDict (data_or_empty d)) \<and>
               json_image fr (message ts t d) = message ts t d))"
proof -
  let ?vs = "map (\<lambda>(ts, t, d). message ts t d) ms"
  from assms have c: "\<forall>v \<in> set ?vs. json_contract dumps loads fr v" by auto
  have "concat (map (\<lambda>(ts, t, d). create_message dumps ts t d) ms)
      = concat (map (\<lambda>v. dumps v @ [newline]) ?vs)"
    by (simp add: comp_def create_message_def split_def)
  with parse_lines[OF c] have all: "parse_messages loads
      (concat (map (\<lambda>(ts, t, d). create_message dumps ts t d) ms))
        = map (\<lambda>(ts, t, d). json_image fr (message ts t d)) ms"
    by (simp add: comp_def split_def)
  have one: "parse_messages loads (create_message dumps ts t d) = [json_image fr (message ts t d)]"
    if "(ts, t, d) \<in> set ms" for ts t d
  proof -
    from that assms have "\<forall>v \<in> set [message ts t d]. json_contract dumps loads fr v" by auto
    from parse_lines[OF this] show ?thesis by (simp add: create_message_def)
  qed
  have f: "field (json_image fr (message ts t d)) ''type'' = Some (PStr t) \<and>
      field (json_image fr (message ts t d)) ''data''
        = Some (json_image fr (PDict (data_or_empty d))) \<and>
      data_or_empty d = (case d of None \<Rightarrow> [] | Some items \<Rightarrow> items)"
    for ts t d
    unfolding json_image_message by (simp add: field_def data_or_empty_def split: option.splits)
  have n: "field (json_image fr (message ts t d)) ''data'' = Some (PDict (data_or_empty d)) \<and>
      json_image fr (message ts t d) = message ts t d"
    if "json_native (PDict (data_or_empty d))" for ts t d
  proof -
    have im: "json_image fr (PDict (data_or_empty d)) = PDict (data_or_empty d)"
      by (rule json_native_image[OF that])
    have m: "json_image fr (message ts t d) = message ts t d"
      unfolding json_image_message im by (simp add: message_def)
    from f[of ts t d] have "field (json_image fr (message ts t d)) ''data''
        = Some (json_image fr (PDict (data_or_empty d)))" by blast
    then have "field (json_image fr (message ts t d)) ''data'' = Some (PDict (data_or_empty d))"
      unfolding im .
    with m show ?thesis by blast
  qed
  from all one f n show ?thesis by blast
qed

text \<open>Three messages in one read, and a PLACE_STONE message alone.\<close>

theorem protocol_round_trip_witness:
  "json_contract table_dumps table_loads no_float_repr ready_message \<and>
   json_contract table_dumps table_loads no_float_repr place_message \<and>
   json_contract table_dumps table_loads no_float_repr int_key_message \<and>
   parse_messages table_loads (ready_text @ [newline] @ place_text @ [newline] @ int_key_text @ [newline])
     = [ready_message, place_message, int_key_message_read] \<and>
   parse_messages table_loads (create_message table_dumps ''2026-01-01T12:00:05'' ''PLACE_STONE''
        (Some [(KStr ''x'', PInt 7), (KStr ''y'', PInt 8)])) = [place_message] \<and>
   field place_message ''type'' = Some (PStr ''PLACE_STONE'') \<and>
   field place_message ''data'' = Some (PDict [(KStr ''x'', PInt 7), (KStr ''y'', PInt 8)]) \<and>
   field ready_message ''data'' = Some (PDict [])"
proof -
  let ?r = "(''2026-01-01T12:00:00'', ''READY'', None :: (pykey \<times> pyval) list option)"
  let ?p = "(''2026-01-01T12:00:05'', ''PLACE_STONE'', Some [(KStr ''x'', PInt 7), (KStr ''y'', PInt 8)])"
  let ?k = "(''2026-01-01T12:00:09'', ''CHAT_MESSAGE'', Some [(KInt 1, PStr ''a'')])"
  have c1: "json_contract table_dumps table_loads no_float_repr ready_message" by code_simp
  have c2: "json_contract table_dumps table_loads no_float_repr place_message" by code_simp
  have c3: "json_contract table_dumps table_loads no_float_repr int_key_message" by code_simp
  have h: "\<forall>(ts, t, d) \<in> set [?r, ?p, ?k].
      json_contract table_dumps table_loads no_float_repr (message ts t d)"
    using c1 c2 c3 by (simp add: ready_message_def place_message_def int_key_message_def)
  have cr: "create_message table_dumps ''2026-01-01T12:00:00'' ''READY'' None = ready_text @ [newline]"
    "create_message table_dumps ''2026-01-01T12:00:05'' ''PLACE_STONE''
       (Some [(KStr ''x'', PInt 7), (KStr ''y'', PInt 8)]) = place_text @ [newline]"
    "create_message table_dumps ''2026-01-01T12:00:09'' ''CHAT_MESSAGE''
       (Some [(KInt 1, PStr ''a'')]) = int_key_text @ [newline]"
    by code_simp+
  have im: "json_image no_float_repr (message ''2026-01-01T12:00:00'' ''READY'' None) = ready_message"
    "json_image no_float_repr (message ''2026-01-01T12:00:05'' ''PLACE_STONE''
       (Some [(KStr ''x'', PInt 7), (KStr ''y'', PInt 8)])) = place_message"
    "json_image no_float_repr (message ''2026-01-01T12:00:09'' ''CHAT_MESSAGE''
       (Some [(KInt 1, PStr ''a'')])) = int_key_message_read"
    by code_simp+
  note t = protocol_round_trip[OF h]
  from t have "parse_messages table_loads
      (concat (map (\<lambda>(ts, t, d). create_message table_dumps ts t d) [?r, ?p, ?k]))
        = map (\<lambda>(ts, t, d). json_image no_float_repr (message ts t d)) [?r, ?p, ?k]" by blast
  then have all: "parse_messages table_loads
      (ready_text @ [newline] @ place_text @ [newline] @ int_key_text @ [newline])
        = [ready_message, place_message, int_key_message_read]"
    by (simp add: cr im)
  from t have "parse_messages table_loads (create_message table_dumps ''2026-01-01T12:00:05''
        ''PLACE_STONE'' (Some [(KStr ''x'', PInt 7), (KStr ''y'', PInt 8)]))
      = [json_image no_float_repr (message ''2026-01-01T12:00:05'' ''PLACE_STONE''
           (Some [(KStr ''x'', PInt 7), (KStr ''y'', PInt 8)]))]"
    by simp
  then have p: "parse_messages table_loads (create_message table_dumps ''2026-01-01T12:00:05''
        ''PLACE_STONE'' (Some [(KStr ''x'', PInt 7), (KStr ''y'', PInt 8)])) = [place_message]"
    by (simp only: im)
  have f: "field place_message ''type'' = Some (PStr ''PLACE_STONE'')"
    "field place_message ''data'' = Some (PDict [(KStr ''x'', PInt 7), (KStr ''y'', PInt 8)])"
    "field ready_message ''data'' = Some (PDict [])"
    by code_simp+
  from all p f c1 c2 c3 show ?thesis by simp
qed

text \<open>
  Claim C10 fails as stated: the dictionary with the integer key 1 is accepted by
  \<^verbatim>\<open>json.dumps\<close>, and the message parsed from the bytes has the string key \<^verbatim>\<open>"1"\<close> in its
  data, which is not the dictionary that was sent.
\<close>

theorem int_key_counterexample:
  "json_contract table_dumps table_loads no_float_repr int_key_message \<and>
   int_key_message = message ''2026-01-01T12:00:09'' ''CHAT_MESSAGE'' (Some [(KInt 1, PStr ''a'')]) \<and>
   parse_messages table_loads (create_message table_dumps ''2026-01-01T12:00:09'' ''CHAT_MESSAGE''
        (Some [(KInt 1, PStr ''a'')])) = [int_key_message_read] \<and>
   field int_key_message_read ''data'' = Some (PDict [(KStr ''1'', PStr ''a'')]) \<and>
   field int_key_message_read ''data'' \<noteq> Some (PDict [(KInt 1, PStr ''a'')])"
  by code_simp

end
